theory Spec2Isabelle
  imports Main
begin

section \<open>The platform: strings, numbers and JSON\<close>

subsection \<open>Digits\<close>

text \<open>
  A JavaScript string is modelled as a \<open>string\<close>: a list of code units, here the code
  units U+0000 to U+00FF.
\<close>

definition is_digit :: "char \<Rightarrow> bool" where
  "is_digit c \<longleftrightarrow> c \<in> set ''0123456789''"

definition digit_char :: "nat \<Rightarrow> char" where
  "digit_char n = ''0123456789'' ! (n mod 10)"

definition digit_val :: "char \<Rightarrow> nat" where
  "digit_val c = length (takeWhile (\<lambda>d. d \<noteq> c) ''0123456789'')"

fun show_nat :: "nat \<Rightarrow> string" where
  "show_nat n = (if n < 10 then [digit_char n] else show_nat (n div 10) @ [digit_char (n mod 10)])"

declare show_nat.simps [simp del]

definition nat_of_digits :: "string \<Rightarrow> nat" where
  "nat_of_digits ds = foldl (\<lambda>a c. 10 * a + digit_val c) 0 ds"

definition show_int :: "int \<Rightarrow> string" where
  "show_int i = (if i < 0 then CHR ''-'' # show_nat (nat (- i)) else show_nat (nat i))"

definition is_hex :: "char \<Rightarrow> bool" where
  "is_hex c \<longleftrightarrow> c \<in> set ''0123456789abcdefABCDEF''"

definition hex_char :: "nat \<Rightarrow> char" where
  "hex_char n = ''0123456789abcdef'' ! (n mod 16)"

definition hex_val :: "char \<Rightarrow> nat" where
  "hex_val c =
     (let i = length (takeWhile (\<lambda>d. d \<noteq> c) ''0123456789abcdefABCDEF'')
      in if i < 16 then i else i - 6)"

subsection \<open>Numbers\<close>

text \<open>
  A Number is \<open>NaN\<close>, an infinity, or a finite decimal \<open>Fin m d\<close> of value
  \<open>m / 10 ^ d\<close>. Finite values are exact: the rounding and the overflow of IEEE 754
  doubles are not modelled, and there is one zero. The normal form has no trailing
  zero behind the decimal point.
\<close>

datatype jsnum = NaN | PosInf | NegInf | Fin int nat

fun norm_fin :: "int \<Rightarrow> nat \<Rightarrow> jsnum" where
  "norm_fin m 0 = Fin m 0"
| "norm_fin m (Suc d) = (if m mod 10 = 0 then norm_fin (m div 10) d else Fin m (Suc d))"

fun normalize_num :: "jsnum \<Rightarrow> jsnum" where
  "normalize_num (Fin m d) = norm_fin m d"
| "normalize_num x = x"

definition mk_fin :: "int \<Rightarrow> int \<Rightarrow> jsnum" where
  "mk_fin m e = (if 0 \<le> e then Fin (m * 10 ^ nat e) 0 else norm_fin m (nat (- e)))"

definition num_of_int :: "int \<Rightarrow> jsnum" where
  "num_of_int i = Fin i 0"

fun isNaN :: "jsnum \<Rightarrow> bool" where
  "isNaN NaN = True"
| "isNaN _ = False"

fun is_finite :: "jsnum \<Rightarrow> bool" where
  "is_finite (Fin m d) = True"
| "is_finite _ = False"


fun num_is_zero :: "jsnum \<Rightarrow> bool" where
  "num_is_zero (Fin m d) = (m = 0)"
| "num_is_zero _ = False"

fun num_eq :: "jsnum \<Rightarrow> jsnum \<Rightarrow> bool" where
  "num_eq NaN _ = False"
| "num_eq _ NaN = False"
| "num_eq a b = (normalize_num a = normalize_num b)"

text \<open>
  \<open>Number::toString\<close> (radix 10) on a positive integer mantissa \<open>a\<close> scaled by
  \<open>10 ^ - d\<close>: \<open>strip_zeros\<close> gives the digits \<open>s\<close> without trailing zeros and their
  number, \<open>k\<close> is the number of digits of \<open>s\<close> and \<open>n\<close> the position of the decimal point.
\<close>

fun strip_zeros :: "nat \<Rightarrow> nat \<Rightarrow> nat \<times> nat" where
  "strip_zeros fuel a =
     (case fuel of 0 \<Rightarrow> (a, 0)
      | Suc f \<Rightarrow> if a mod 10 = 0 \<and> a \<noteq> 0
                 then (case strip_zeros f (a div 10) of (s, z) \<Rightarrow> (s, Suc z))
                 else (a, 0))"

definition point_string :: "string \<Rightarrow> int \<Rightarrow> string" where
  "point_string ds n =
     (let k = int (length ds)
      in if 0 < n \<and> n \<le> 21 then take (nat n) ds @ ''.'' @ drop (nat n) ds
         else if - 6 < n \<and> n \<le> 0 then ''0.'' @ replicate (nat (- n)) CHR ''0'' @ ds
         else (if k = 1 then ds else hd ds # ''.'' @ tl ds)
              @ ''e'' @ (if 0 \<le> n - 1 then ''+'' else ''-'') @ show_nat (nat \<bar>n - 1\<bar>))"

definition pos_to_string :: "nat \<Rightarrow> nat \<Rightarrow> string" where
  "pos_to_string a d =
     (if d = 0 \<and> length (show_nat a) \<le> 21 then show_nat a
      else
        let sz = (if d = 0 then strip_zeros (length (show_nat a)) a else (a, 0));
            ds = show_nat (fst sz)
        in point_string ds (int (length ds) + int (snd sz) - int d))"

definition num_to_string :: "jsnum \<Rightarrow> string" where
  "num_to_string x =
     (case normalize_num x of
        NaN \<Rightarrow> ''NaN''
      | PosInf \<Rightarrow> ''Infinity''
      | NegInf \<Rightarrow> ''-Infinity''
      | Fin m d \<Rightarrow>
          if m = 0 then ''0''
          else if m < 0 then CHR ''-'' # pos_to_string (nat (- m)) d
          else pos_to_string (nat m) d)"

subsection \<open>JSON values\<close>

text \<open>
  The values that \<open>JSON.parse\<close> returns and \<open>JSON.stringify\<close> accepts. An object is its
  list of own properties in insertion order. (The reordering of integer-like keys and
  inherited properties are not modelled: the property names of the store are field
  names, month keys and category names.)
\<close>

datatype json =
    JNull
  | JBool bool
  | JNum jsnum
  | JStr string
  | JArr "json list"
  | JObj "(string \<times> json) list"

text \<open>Property assignment \<open>o[k] = v\<close> on the property list of an object.\<close>

fun obj_set :: "string \<Rightarrow> json \<Rightarrow> (string \<times> json) list \<Rightarrow> (string \<times> json) list" where
  "obj_set k v [] = [(k, v)]"
| "obj_set k v ((k', v') # kvs) =
     (if k' = k then (k, v) # kvs else (k', v') # obj_set k v kvs)"

text \<open>
  What a value in memory is after serialisation and parsing: a number that is not finite
  has become \<open>null\<close>, a finite number is in normal form, and an object has one
  property per name (\<open>JSON.parse\<close> assigns the members in textual order, so a repeated
  name keeps its first position and its last value).
\<close>

fun jsonify :: "json \<Rightarrow> json"
  and jsonify_list :: "json list \<Rightarrow> json list"
  and jsonify_members :: "(string \<times> json) list \<Rightarrow> (string \<times> json) list \<Rightarrow> (string \<times> json) list" where
  "jsonify JNull = JNull"
| "jsonify (JBool b) = JBool b"
| "jsonify (JNum x) = (if is_finite x then JNum (normalize_num x) else JNull)"
| "jsonify (JStr s) = JStr s"
| "jsonify (JArr xs) = JArr (jsonify_list xs)"
| "jsonify (JObj kvs) = JObj (jsonify_members kvs [])"
| "jsonify_list [] = []"
| "jsonify_list (x # xs) = jsonify x # jsonify_list xs"
| "jsonify_members [] acc = acc"
| "jsonify_members ((k, v) # kvs) acc = jsonify_members kvs (obj_set k (jsonify v) acc)"

subsection \<open>JSON.stringify\<close>

definition quote_char :: "char \<Rightarrow> string" where
  "quote_char c =
     (if c = CHR 0x22 then [CHR 0x5C, CHR 0x22]
      else if c = CHR 0x5C then [CHR 0x5C, CHR 0x5C]
      else if c = CHR 0x08 then [CHR 0x5C, CHR ''b'']
      else if c = CHR 0x0C then [CHR 0x5C, CHR ''f'']
      else if c = CHR 0x0A then [CHR 0x5C, CHR ''n'']
      else if c = CHR 0x0D then [CHR 0x5C, CHR ''r'']
      else if c = CHR 0x09 then [CHR 0x5C, CHR ''t'']
      else if (of_char c :: nat) < 32
      then [CHR 0x5C, CHR ''u'', CHR ''0'', CHR ''0'',
            hex_char (of_char c div 16), hex_char (of_char c mod 16)]
      else [c])"

definition quote_string :: "string \<Rightarrow> string" where
  "quote_string s = CHR 0x22 # concat (map quote_char s) @ [CHR 0x22]"

fun JSON_stringify :: "json \<Rightarrow> string"
  and stringify_elems :: "json list \<Rightarrow> string"
  and stringify_members :: "(string \<times> json) list \<Rightarrow> string" where
  "JSON_stringify JNull = ''null''"
| "JSON_stringify (JBool b) = (if b then ''true'' else ''false'')"
| "JSON_stringify (JNum x) = (if is_finite x then num_to_string x else ''null'')"
| "JSON_stringify (JStr s) = quote_string s"
| "JSON_stringify (JArr xs) = ''['' @ stringify_elems xs @ '']''"
| "JSON_stringify (JObj kvs) = ''{'' @ stringify_members kvs @ ''}''"
| "stringify_elems [] = []"
| "stringify_elems [x] = JSON_stringify x"
| "stringify_elems (x # y # ys) = JSON_stringify x @ '','' @ stringify_elems (y # ys)"
| "stringify_members [] = []"
| "stringify_members [(k, v)] = quote_string k @ '':'' @ JSON_stringify v"
| "stringify_members ((k, v) # kv # kvs) =
     quote_string k @ '':'' @ JSON_stringify v @ '','' @ stringify_members (kv # kvs)"

subsection \<open>JSON.parse\<close>

definition is_ws :: "char \<Rightarrow> bool" where
  "is_ws c \<longleftrightarrow> c = CHR '' '' \<or> c = CHR 0x09 \<or> c = CHR 0x0A \<or> c = CHR 0x0D"

definition skip_ws :: "string \<Rightarrow> string" where
  "skip_ws s = dropWhile is_ws s"

definition unescape :: "char \<Rightarrow> char option" where
  "unescape e =
     (if e = CHR 0x22 then Some (CHR 0x22)
      else if e = CHR 0x5C then Some (CHR 0x5C)
      else if e = CHR ''/'' then Some (CHR ''/'')
      else if e = CHR ''b'' then Some (CHR 0x08)
      else if e = CHR ''f'' then Some (CHR 0x0C)
      else if e = CHR ''n'' then Some (CHR 0x0A)
      else if e = CHR ''r'' then Some (CHR 0x0D)
      else if e = CHR ''t'' then Some (CHR 0x09)
      else None)"

text \<open>
  The characters of a string literal after its opening quote, up to the closing quote.
  An escape \<open>\u\<close> of a code unit above U+00FF has no value in this model of strings and is
  refused.
\<close>

fun parse_string :: "string \<Rightarrow> (string \<times> string) option" where
  "parse_string [] = None"
| "parse_string (c # r) =
     (if c = CHR 0x22 then Some ([], r)
      else if c = CHR 0x5C then
        (case r of
           [] \<Rightarrow> None
         | e # r1 \<Rightarrow>
             if e = CHR ''u'' then
               (case r1 of
                  h1 # h2 # h3 # h4 # r2 \<Rightarrow>
                    if is_hex h1 \<and> is_hex h2 \<and> is_hex h3 \<and> is_hex h4
                       \<and> hex_val h1 = 0 \<and> hex_val h2 = 0
                    then (case parse_string r2 of
                            None \<Rightarrow> None
                          | Some (s, r3) \<Rightarrow> Some (char_of (16 * hex_val h3 + hex_val h4) # s, r3))
                    else None
                | _ \<Rightarrow> None)
             else
               (case unescape e of
                  None \<Rightarrow> None
                | Some ch \<Rightarrow>
                    (case parse_string r1 of
                       None \<Rightarrow> None
                     | Some (s, r3) \<Rightarrow> Some (ch # s, r3))))
      else if (of_char c :: nat) < 32 then None
      else (case parse_string r of
              None \<Rightarrow> None
            | Some (s, r3) \<Rightarrow> Some (c # s, r3)))"

text \<open>
  A number literal: \<open>-\<close>? int frac? exp?, with no leading zero in a multi-digit int and at
  least one digit in frac and exp.
\<close>

definition parse_exponent :: "string \<Rightarrow> (int \<times> string) option" where
  "parse_exponent s =
     (case s of
        [] \<Rightarrow> Some (0, s)
      | c # r \<Rightarrow>
          if c = CHR ''e'' \<or> c = CHR ''E'' then
            (let (neg, r1) =
                   (case r of
                      [] \<Rightarrow> (False, r)
                    | g # r' \<Rightarrow> if g = CHR ''-'' then (True, r')
                               else if g = CHR ''+'' then (False, r') else (False, r));
                 xs = takeWhile is_digit r1
             in if xs = [] then None
                else Some ((if neg then - int (nat_of_digits xs) else int (nat_of_digits xs)),
                           dropWhile is_digit r1))
          else Some (0, s))"

definition parse_fraction :: "string \<Rightarrow> (string \<times> string) option" where
  "parse_fraction s =
     (case s of
        [] \<Rightarrow> Some ([], s)
      | c # r \<Rightarrow>
          if c = CHR ''.'' then
            (let fs = takeWhile is_digit r
             in if fs = [] then None else Some (fs, dropWhile is_digit r))
          else Some ([], s))"

definition parse_unsigned :: "string \<Rightarrow> ((nat \<times> int) \<times> string) option" where
  "parse_unsigned s =
     (let is = takeWhile is_digit s; r = dropWhile is_digit s
      in if is = [] \<or> (1 < length is \<and> hd is = CHR ''0'') then None
         else (case parse_fraction r of
                 None \<Rightarrow> None
               | Some (fs, r1) \<Rightarrow>
                   (case parse_exponent r1 of
                      None \<Rightarrow> None
                    | Some (x, r2) \<Rightarrow>
                        Some ((nat_of_digits (is @ fs), x - int (length fs)), r2))))"

definition parse_number :: "string \<Rightarrow> (jsnum \<times> string) option" where
  "parse_number s =
     (case s of
        [] \<Rightarrow> None
      | c # r \<Rightarrow>
          if c = CHR ''-'' then
            (case parse_unsigned r of
               None \<Rightarrow> None
             | Some ((m, e), r1) \<Rightarrow> Some (mk_fin (- int m) e, r1))
          else
            (case parse_unsigned s of
               None \<Rightarrow> None
             | Some ((m, e), r1) \<Rightarrow> Some (mk_fin (int m) e, r1)))"

definition parse_literal :: "string \<Rightarrow> (json \<times> string) option" where
  "parse_literal s =
     (if take 4 s = ''true'' then Some (JBool True, drop 4 s)
      else if take 5 s = ''false'' then Some (JBool False, drop 5 s)
      else if take 4 s = ''null'' then Some (JNull, drop 4 s)
      else None)"

text \<open>
  The recursive descent over values, array elements and object members. Each call
  passes one unit of fuel less; \<open>JSON_parse_raw\<close> starts with more than a text of that
  length can use. The result keeps the members of an object as they are written;
  \<open>JSON_parse\<close> then assigns them (\<open>jsonify\<close>).
\<close>

fun parse_json :: "nat \<Rightarrow> string \<Rightarrow> (json \<times> string) option"
  and parse_elems :: "nat \<Rightarrow> string \<Rightarrow> (json list \<times> string) option"
  and parse_members :: "nat \<Rightarrow> string \<Rightarrow> ((string \<times> json) list \<times> string) option" where
  "parse_json 0 s = None"
| "parse_json (Suc f) s =
     (case skip_ws s of
        [] \<Rightarrow> None
      | c # r \<Rightarrow>
          if c = CHR ''{'' then
            (case skip_ws r of
               [] \<Rightarrow> None
             | c1 # r1 \<Rightarrow>
                 if c1 = CHR ''}'' then Some (JObj [], r1)
                 else (case parse_members f (c1 # r1) of
                         None \<Rightarrow> None
                       | Some (kvs, r2) \<Rightarrow> Some (JObj kvs, r2)))
          else if c = CHR ''['' then
            (case skip_ws r of
               [] \<Rightarrow> None
             | c1 # r1 \<Rightarrow>
                 if c1 = CHR '']'' then Some (JArr [], r1)
                 else (case parse_elems f (c1 # r1) of
                         None \<Rightarrow> None
                       | Some (xs, r2) \<Rightarrow> Some (JArr xs, r2)))
          else if c = CHR 0x22 then
            (case parse_string r of
               None \<Rightarrow> None
             | Some (str, r1) \<Rightarrow> Some (JStr str, r1))
          else if c = CHR ''-'' \<or> is_digit c then
            (case parse_number (c # r) of
               None \<Rightarrow> None
             | Some (x, r1) \<Rightarrow> Some (JNum x, r1))
          else parse_literal (c # r))"
| "parse_elems 0 s = None"
| "parse_elems (Suc f) s =
     (case parse_json f s of
        None \<Rightarrow> None
      | Some (x, r) \<Rightarrow>
          (case skip_ws r of
             [] \<Rightarrow> None
           | c # r1 \<Rightarrow>
               if c = CHR '']'' then Some ([x], r1)
               else if c = CHR '','' then
                 (case parse_elems f r1 of
                    None \<Rightarrow> None
                  | Some (xs, r2) \<Rightarrow> Some (x # xs, r2))
               else None))"
| "parse_members 0 s = None"
| "parse_members (Suc f) s =
     (case skip_ws s of
        [] \<Rightarrow> None
      | q # r \<Rightarrow>
          if q = CHR 0x22 then
            (case parse_string r of
               None \<Rightarrow> None
             | Some (k, r1) \<Rightarrow>
                 (case skip_ws r1 of
                    [] \<Rightarrow> None
                  | c # r2 \<Rightarrow>
                      if c = CHR '':'' then
                        (case parse_json f r2 of
                           None \<Rightarrow> None
                         | Some (v, r3) \<Rightarrow>
                             (case skip_ws r3 of
                                [] \<Rightarrow> None
                              | c1 # r4 \<Rightarrow>
                                  if c1 = CHR ''}'' then Some ([(k, v)], r4)
                                  else if c1 = CHR '','' then
                                    (case parse_members f r4 of
                                       None \<Rightarrow> None
                                     | Some (kvs, r5) \<Rightarrow> Some ((k, v) # kvs, r5))
                                  else None))
                      else None))
          else None)"

definition JSON_parse_raw :: "string \<Rightarrow> json option" where
  "JSON_parse_raw s =
     (case parse_json (2 * length s + 2) s of
        None \<Rightarrow> None
      | Some (v, r) \<Rightarrow> if skip_ws r = [] then Some v else None)"

definition JSON_parse :: "string \<Rightarrow> json option" where
  "JSON_parse s = map_option jsonify (JSON_parse_raw s)"

subsection \<open>Reading a serialised value back\<close>

text \<open>
  \<open>printed v\<close> is the value whose text \<open>JSON_stringify v\<close> is (a number that is not
  finite is written \<open>null\<close>); \<open>fuel_json v\<close> bounds the calls the descent makes on that
  text; a text is followed by a delimiter or by nothing.
\<close>

fun printed :: "json \<Rightarrow> json"
  and printed_list :: "json list \<Rightarrow> json list"
  and printed_members :: "(string \<times> json) list \<Rightarrow> (string \<times> json) list" where
  "printed JNull = JNull"
| "printed (JBool b) = JBool b"
| "printed (JNum x) = (if is_finite x then JNum (normalize_num x) else JNull)"
| "printed (JStr s) = JStr s"
| "printed (JArr xs) = JArr (printed_list xs)"
| "printed (JObj kvs) = JObj (printed_members kvs)"
| "printed_list [] = []"
| "printed_list (x # xs) = printed x # printed_list xs"
| "printed_members [] = []"
| "printed_members ((k, v) # kvs) = (k, printed v) # printed_members kvs"

fun fuel_json :: "json \<Rightarrow> nat"
  and fuel_elems :: "json list \<Rightarrow> nat"
  and fuel_members :: "(string \<times> json) list \<Rightarrow> nat" where
  "fuel_json JNull = 1"
| "fuel_json (JBool b) = 1"
| "fuel_json (JNum x) = 1"
| "fuel_json (JStr s) = 1"
| "fuel_json (JArr xs) = Suc (fuel_elems xs)"
| "fuel_json (JObj kvs) = Suc (fuel_members kvs)"
| "fuel_elems [] = 0"
| "fuel_elems (x # xs) = Suc (max (fuel_json x) (fuel_elems xs))"
| "fuel_members [] = 0"
| "fuel_members ((k, v) # kvs) = Suc (max (fuel_json v) (fuel_members kvs))"

definition delim :: "string \<Rightarrow> bool" where
  "delim r \<longleftrightarrow> r = [] \<or> hd r \<in> set '',]}''"

text \<open>The first character of a serialised value.\<close>

definition starter :: "char \<Rightarrow> bool" where
  "starter c \<longleftrightarrow> \<not> is_ws c \<and> c \<noteq> CHR '']'' \<and> c \<noteq> CHR ''}''"

text \<open>
  The values that serialisation and parsing leave unchanged: finite numbers in normal
  form, and objects with one property per name.
\<close>

fun canon :: "json \<Rightarrow> bool"
  and canon_list :: "json list \<Rightarrow> bool"
  and canon_members :: "(string \<times> json) list \<Rightarrow> bool" where
  "canon JNull = True"
| "canon (JBool b) = True"
| "canon (JNum x) = (is_finite x \<and> normalize_num x = x)"
| "canon (JStr s) = True"
| "canon (JArr xs) = canon_list xs"
| "canon (JObj kvs) = (distinct (map fst kvs) \<and> canon_members kvs)"
| "canon_list [] = True"
| "canon_list (x # xs) = (canon x \<and> canon_list xs)"
| "canon_members [] = True"
| "canon_members ((k, v) # kvs) = (canon v \<and> canon_members kvs)"

section \<open>The platform: dates\<close>

text \<open>
  A time value is a number of milliseconds since the epoch; a Date object holds a time
  value or is invalid (\<open>None\<close>, the time value \<open>NaN\<close>). The functions below are the
  abstract operations of ECMAScript on time values, over the integers.
\<close>

definition msPerDay :: int where
  "msPerDay = 86400000"

definition Day :: "int \<Rightarrow> int" where
  "Day t = t div msPerDay"

definition TimeWithinDay :: "int \<Rightarrow> int" where
  "TimeWithinDay t = t mod msPerDay"

text \<open>Year, month (1 to 12) and day of the month of a day number, and back.\<close>

definition civil_of_days :: "int \<Rightarrow> int \<times> int \<times> int" where
  "civil_of_days z0 =
     (let z = z0 + 719468;
          era = z div 146097;
          doe = z mod 146097;
          yoe = (doe - doe div 1460 + doe div 36524 - doe div 146096) div 365;
          doy = doe - (365 * yoe + yoe div 4 - yoe div 100);
          mp = (5 * doy + 2) div 153;
          d = doy - (153 * mp + 2) div 5 + 1;
          m = (if mp < 10 then mp + 3 else mp - 9);
          y = yoe + era * 400
      in (if m \<le> 2 then y + 1 else y, m, d))"

definition days_of_civil :: "int \<Rightarrow> int \<Rightarrow> int \<Rightarrow> int" where
  "days_of_civil y0 m d =
     (let y = (if m \<le> 2 then y0 - 1 else y0);
          era = y div 400;
          yoe = y mod 400;
          doy = (153 * (if 2 < m then m - 3 else m + 9) + 2) div 5 + d - 1;
          doe = yoe * 365 + yoe div 4 - yoe div 100 + doy
      in era * 146097 + doe - 719468)"

definition YearFromTime :: "int \<Rightarrow> int" where
  "YearFromTime t = fst (civil_of_days (Day t))"

definition MonthFromTime :: "int \<Rightarrow> int" where
  "MonthFromTime t = fst (snd (civil_of_days (Day t))) - 1"

definition DateFromTime :: "int \<Rightarrow> int" where
  "DateFromTime t = snd (snd (civil_of_days (Day t)))"

definition HourFromTime :: "int \<Rightarrow> int" where
  "HourFromTime t = (t div 3600000) mod 24"

definition MinFromTime :: "int \<Rightarrow> int" where
  "MinFromTime t = (t div 60000) mod 60"

definition SecFromTime :: "int \<Rightarrow> int" where
  "SecFromTime t = (t div 1000) mod 60"

definition msFromTime :: "int \<Rightarrow> int" where
  "msFromTime t = t mod 1000"

definition MakeTime :: "int \<Rightarrow> int \<Rightarrow> int \<Rightarrow> int \<Rightarrow> int" where
  "MakeTime h m s ms = h * 3600000 + m * 60000 + s * 1000 + ms"

definition MakeDay :: "int \<Rightarrow> int \<Rightarrow> int \<Rightarrow> int" where
  "MakeDay year month date =
     days_of_civil (year + month div 12) (month mod 12 + 1) 1 + date - 1"

definition MakeDate :: "int \<Rightarrow> int \<Rightarrow> int" where
  "MakeDate day time = day * msPerDay + time"

definition TimeClip :: "int \<Rightarrow> int option" where
  "TimeClip t = (if 8640000000000000 < \<bar>t\<bar> then None else Some t)"

definition DaysInMonth :: "int \<Rightarrow> int \<Rightarrow> int" where
  "DaysInMonth year month = days_of_civil (year + month div 12) (month mod 12 + 1) 1
                             - days_of_civil year month 1"

text \<open>
  What the host decides: the offset of local time from UTC in milliseconds
  (\<open>LocalTZA(t, isUTC)\<close>), and what \<open>Date.parse\<close> makes of a string that is not in the
  date time string format (implementation-defined).
\<close>

record platform =
  localTZA :: "int \<Rightarrow> bool \<Rightarrow> int"
  dateFallback :: "string \<Rightarrow> int option"

definition LocalTime :: "platform \<Rightarrow> int \<Rightarrow> int" where
  "LocalTime P t = t + localTZA P t True"

definition UTC :: "platform \<Rightarrow> int \<Rightarrow> int" where
  "UTC P t = t - localTZA P t False"

definition getFullYear :: "platform \<Rightarrow> int option \<Rightarrow> int option" where
  "getFullYear P d = map_option (\<lambda>t. YearFromTime (LocalTime P t)) d"

definition getMonth :: "platform \<Rightarrow> int option \<Rightarrow> int option" where
  "getMonth P d = map_option (\<lambda>t. MonthFromTime (LocalTime P t)) d"

text \<open>\<open>setMonth(month)\<close> with its one argument; \<open>None\<close> is a month that is \<open>NaN\<close>.\<close>

definition setMonth :: "platform \<Rightarrow> int option \<Rightarrow> int option \<Rightarrow> int option" where
  "setMonth P d month =
     (case d of
        None \<Rightarrow> None
      | Some t0 \<Rightarrow>
          (case month of
             None \<Rightarrow> None
           | Some m \<Rightarrow>
               let t = LocalTime P t0;
                   newDate = MakeDate (MakeDay (YearFromTime t) m (DateFromTime t)) (TimeWithinDay t)
               in TimeClip (UTC P newDate)))"

definition pad2 :: "string \<Rightarrow> string" where
  "pad2 s = replicate (2 - length s) CHR ''0'' @ s"

definition padn :: "nat \<Rightarrow> string \<Rightarrow> string" where
  "padn n s = replicate (n - length s) CHR ''0'' @ s"

definition toISOString :: "int \<Rightarrow> string" where
  "toISOString t =
     (let y = YearFromTime t;
          ys = (if 0 \<le> y \<and> y \<le> 9999 then padn 4 (show_nat (nat y))
                else (if y < 0 then ''-'' else ''+'') @ padn 6 (show_nat (nat \<bar>y\<bar>)))
      in ys @ ''-'' @ padn 2 (show_nat (nat (MonthFromTime t + 1)))
            @ ''-'' @ padn 2 (show_nat (nat (DateFromTime t)))
            @ ''T'' @ padn 2 (show_nat (nat (HourFromTime t)))
            @ '':'' @ padn 2 (show_nat (nat (MinFromTime t)))
            @ '':'' @ padn 2 (show_nat (nat (SecFromTime t)))
            @ ''.'' @ padn 3 (show_nat (nat (msFromTime t))) @ ''Z'')"

text \<open>
  \<open>Date.parse\<close>: the date time string format (\<open>YYYY\<close>, \<open>YYYY-MM\<close>, \<open>YYYY-MM-DD\<close>, each
  optionally followed by \<open>THH:mm\<close>, \<open>THH:mm:ss\<close> or \<open>THH:mm:ss.sss\<close> and then by \<open>Z\<close> or
  an offset \<open>+HH:mm\<close>, \<open>-HH:mm\<close>; years also as a sign and six digits). A date-only form
  is UTC, a date-time form without offset is local time. Any other string is left to
  the host.
\<close>

definition all_digits :: "string \<Rightarrow> bool" where
  "all_digits s \<longleftrightarrow> list_all is_digit s"

definition iso_year :: "string \<Rightarrow> (int \<times> string) option" where
  "iso_year s =
     (case s of
        [] \<Rightarrow> None
      | c # r \<Rightarrow>
          if c = CHR ''+'' \<or> c = CHR ''-'' then
            (if length r \<ge> 6 \<and> all_digits (take 6 r)
                \<and> \<not> (c = CHR ''-'' \<and> nat_of_digits (take 6 r) = 0)
             then Some ((if c = CHR ''-'' then - int (nat_of_digits (take 6 r))
                         else int (nat_of_digits (take 6 r))), drop 6 r)
             else None)
          else if length s \<ge> 4 \<and> all_digits (take 4 s)
          then Some (int (nat_of_digits (take 4 s)), drop 4 s)
          else None)"

text \<open>Two digits after the separator \<open>sep\<close>, when the text goes on with that separator.\<close>

definition iso_two :: "char \<Rightarrow> string \<Rightarrow> (int \<times> string) option" where
  "iso_two sep s =
     (case s of
        c # a # b # r \<Rightarrow>
          if c = sep \<and> is_digit a \<and> is_digit b then Some (int (nat_of_digits [a, b]), r) else None
      | _ \<Rightarrow> None)"

definition iso_time :: "string \<Rightarrow> (int \<times> string) option" where
  "iso_time s =
     (case iso_two (CHR ''T'') s of
        None \<Rightarrow> None
      | Some (h, r1) \<Rightarrow>
          (case iso_two (CHR '':'') r1 of
             None \<Rightarrow> None
           | Some (mi, r2) \<Rightarrow>
               (case iso_two (CHR '':'') r2 of
                  None \<Rightarrow>
                    if h \<le> 24 \<and> mi \<le> 59 \<and> (h = 24 \<longrightarrow> mi = 0)
                    then Some (MakeTime h mi 0 0, r2) else None
                | Some (sec, r3) \<Rightarrow>
                    (case r3 of
                       c # a # b # d # r4 \<Rightarrow>
                         if c = CHR ''.'' \<and> is_digit a \<and> is_digit b \<and> is_digit d then
                           (let ms = int (nat_of_digits [a, b, d])
                            in if h \<le> 24 \<and> mi \<le> 59 \<and> sec \<le> 59
                                  \<and> (h = 24 \<longrightarrow> mi = 0 \<and> sec = 0 \<and> ms = 0)
                               then Some (MakeTime h mi sec ms, r4) else None)
                         else if h \<le> 24 \<and> mi \<le> 59 \<and> sec \<le> 59 \<and> (h = 24 \<longrightarrow> mi = 0 \<and> sec = 0)
                         then Some (MakeTime h mi sec 0, r3) else None
                     | _ \<Rightarrow>
                         if h \<le> 24 \<and> mi \<le> 59 \<and> sec \<le> 59 \<and> (h = 24 \<longrightarrow> mi = 0 \<and> sec = 0)
                         then Some (MakeTime h mi sec 0, r3) else None))))"

definition iso_offset :: "string \<Rightarrow> int option" where
  "iso_offset s =
     (if s = ''Z'' then Some 0
      else (case s of
              c # r \<Rightarrow>
                if c = CHR ''+'' \<or> c = CHR ''-'' then
                  (case r of
                     [a, b, col, e, f] \<Rightarrow>
                       if is_digit a \<and> is_digit b \<and> col = CHR '':'' \<and> is_digit e \<and> is_digit f
                          \<and> nat_of_digits [a, b] \<le> 23 \<and> nat_of_digits [e, f] \<le> 59
                       then Some ((if c = CHR ''-'' then - 1 else 1)
                                  * (int (nat_of_digits [a, b]) * 3600000
                                     + int (nat_of_digits [e, f]) * 60000))
                       else None
                   | _ \<Rightarrow> None)
                else None
            | [] \<Rightarrow> None))"

text \<open>The time value of a string in the format; \<open>None\<close> when the string is not in it.\<close>

definition iso_parse :: "platform \<Rightarrow> string \<Rightarrow> int option" where
  "iso_parse P s =
     (case iso_year s of
        None \<Rightarrow> None
      | Some (y, r0) \<Rightarrow>
          let (mo, r1) = (case iso_two (CHR ''-'') r0 of None \<Rightarrow> (1, r0) | Some x \<Rightarrow> x);
              (dd, r2) = (if r1 = r0 then (1, r1)
                          else (case iso_two (CHR ''-'') r1 of None \<Rightarrow> (1, r1) | Some x \<Rightarrow> x))
          in if \<not> (1 \<le> mo \<and> mo \<le> 12 \<and> 1 \<le> dd \<and> dd \<le> DaysInMonth y mo) then None
             else
               let day = MakeDay y (mo - 1) dd
               in if r2 = [] then Some (MakeDate day 0)
                  else (case iso_time r2 of
                          None \<Rightarrow> None
                        | Some (tm, r3) \<Rightarrow>
                            if r3 = [] then Some (UTC P (MakeDate day tm))
                            else (case iso_offset r3 of
                                    None \<Rightarrow> None
                                  | Some off \<Rightarrow> Some (MakeDate day tm - off))))"

definition Date_parse :: "platform \<Rightarrow> string \<Rightarrow> int option" where
  "Date_parse P s =
     (case iso_parse P s of
        Some t \<Rightarrow> TimeClip t
      | None \<Rightarrow> (case dateFallback P s of None \<Rightarrow> None | Some t \<Rightarrow> TimeClip t))"

section \<open>The platform: conversions and string methods\<close>

fun intercalate :: "string \<Rightarrow> string list \<Rightarrow> string" where
  "intercalate sep [] = []"
| "intercalate sep [x] = x"
| "intercalate sep (x # y # ys) = x @ sep @ intercalate sep (y # ys)"

text \<open>\<open>ToString\<close> of a value; an array joins its elements, \<open>null\<close> as the empty string.\<close>

fun js_to_string :: "json \<Rightarrow> string"
  and js_join :: "json list \<Rightarrow> string list" where
  "js_to_string JNull = ''null''"
| "js_to_string (JBool b) = (if b then ''true'' else ''false'')"
| "js_to_string (JNum x) = num_to_string x"
| "js_to_string (JStr s) = s"
| "js_to_string (JArr xs) = intercalate '','' (js_join xs)"
| "js_to_string (JObj kvs) = ''[object Object]''"
| "js_join [] = []"
| "js_join (x # xs) = (if x = JNull then [] else js_to_string x) # js_join xs"

text \<open>White space and line terminators among the code units up to U+00FF.\<close>

definition is_js_space :: "char \<Rightarrow> bool" where
  "is_js_space c \<longleftrightarrow>
     c = CHR 0x09 \<or> c = CHR 0x0A \<or> c = CHR 0x0B \<or> c = CHR 0x0C \<or> c = CHR 0x0D
     \<or> c = CHR 0x20 \<or> c = CHR 0xA0"

definition trim :: "string \<Rightarrow> string" where
  "trim s = rev (dropWhile is_js_space (rev (dropWhile is_js_space s)))"

text \<open>\<open>toLowerCase\<close> on the code units up to U+00FF.\<close>

definition lower_char :: "char \<Rightarrow> char" where
  "lower_char c =
     (let n = (of_char c :: nat)
      in if (65 \<le> n \<and> n \<le> 90) \<or> (192 \<le> n \<and> n \<le> 222 \<and> n \<noteq> 215)
         then char_of (n + 32) else c)"

definition toLowerCase :: "string \<Rightarrow> string" where
  "toLowerCase s = map lower_char s"

text \<open>
  \<open>parseFloat\<close>: the longest prefix of the trimmed string that is a decimal literal.
  The fraction and the exponent count only when they are well formed.
\<close>

definition float_fraction :: "string \<Rightarrow> string \<times> string" where
  "float_fraction s =
     (case s of
        [] \<Rightarrow> ([], s)
      | c # r \<Rightarrow> if c = CHR ''.'' then (takeWhile is_digit r, dropWhile is_digit r) else ([], s))"

definition float_exponent :: "string \<Rightarrow> int" where
  "float_exponent s = (case parse_exponent s of None \<Rightarrow> 0 | Some (x, r) \<Rightarrow> x)"

definition float_unsigned :: "string \<Rightarrow> (nat \<times> int) option" where
  "float_unsigned s =
     (let is = takeWhile is_digit s;
          (fs, r1) = float_fraction (dropWhile is_digit s)
      in if is = [] \<and> fs = [] then None
         else Some (nat_of_digits (is @ fs), float_exponent r1 - int (length fs)))"

definition parse_float_string :: "string \<Rightarrow> jsnum" where
  "parse_float_string s0 =
     (let s = dropWhile is_js_space s0;
          neg = (s \<noteq> [] \<and> hd s = CHR ''-'');
          r = (if s \<noteq> [] \<and> (hd s = CHR ''-'' \<or> hd s = CHR ''+'') then tl s else s)
      in if take 8 r = ''Infinity'' then (if neg then NegInf else PosInf)
         else (case float_unsigned r of
                 None \<Rightarrow> NaN
               | Some (m, e) \<Rightarrow> mk_fin (if neg then - int m else int m) e))"

text \<open>\<open>parseFloat\<close> of a value; \<open>None\<close> is \<open>undefined\<close>.\<close>

definition parseFloat :: "json option \<Rightarrow> jsnum" where
  "parseFloat v =
     parse_float_string (case v of None \<Rightarrow> ''undefined'' | Some j \<Rightarrow> js_to_string j)"

text \<open>The truth value of a value (\<open>ToBoolean\<close>); \<open>None\<close> is \<open>undefined\<close>.\<close>

fun truthy :: "json option \<Rightarrow> bool" where
  "truthy None = False"
| "truthy (Some JNull) = False"
| "truthy (Some (JBool b)) = b"
| "truthy (Some (JNum x)) = (\<not> isNaN x \<and> \<not> num_is_zero x)"
| "truthy (Some (JStr s)) = (s \<noteq> [])"
| "truthy (Some (JArr xs)) = True"
| "truthy (Some (JObj kvs)) = True"

text \<open>
  Strict equality of a value read from the parsed store with a value passed by the
  caller: two objects or arrays are then never the same object.
\<close>

fun strict_eq :: "json option \<Rightarrow> json option \<Rightarrow> bool" where
  "strict_eq None None = True"
| "strict_eq (Some JNull) (Some JNull) = True"
| "strict_eq (Some (JBool a)) (Some (JBool b)) = (a = b)"
| "strict_eq (Some (JNum a)) (Some (JNum b)) = num_eq a b"
| "strict_eq (Some (JStr a)) (Some (JStr b)) = (a = b)"
| "strict_eq _ _ = False"

text \<open>\<open>new Date(value)\<close> for a value that is not a Date; \<open>None\<close> is \<open>undefined\<close>.\<close>

fun num_trunc :: "jsnum \<Rightarrow> int option" where
  "num_trunc (Fin m d) = Some (if 0 \<le> m then m div 10 ^ d else - ((- m) div 10 ^ d))"
| "num_trunc _ = None"

definition new_Date :: "platform \<Rightarrow> json option \<Rightarrow> int option" where
  "new_Date P v =
     (case v of
        None \<Rightarrow> None
      | Some JNull \<Rightarrow> Some 0
      | Some (JBool b) \<Rightarrow> Some (if b then 1 else 0)
      | Some (JNum x) \<Rightarrow> (case num_trunc x of None \<Rightarrow> None | Some t \<Rightarrow> TimeClip t)
      | Some (JStr s) \<Rightarrow> Date_parse P s
      | Some j \<Rightarrow> Date_parse P (js_to_string j))"

text \<open>\<open>getMonthKey(date)\<close>; an invalid date gives \<open>NaN-NaN\<close>.\<close>

definition getMonthKey :: "platform \<Rightarrow> int option \<Rightarrow> string" where
  "getMonthKey P date =
     (let year = (case getFullYear P date of None \<Rightarrow> ''NaN'' | Some y \<Rightarrow> show_int y);
          month = pad2 (case getMonth P date of None \<Rightarrow> ''NaN'' | Some m \<Rightarrow> show_int (m + 1))
      in year @ ''-'' @ month)"

section \<open>The data store (class ExpenseTracker of app.js)\<close>

text \<open>
  The state is the item of \<open>localStorage\<close> under the key \<open>expenseTrackerData\<close>: absent
  (\<open>None\<close>) or a text. \<open>getItem\<close> and \<open>setItem\<close> are taken to succeed. A call that throws
  leaves the state as it was and is the value \<open>Inl TypeError\<close>.
\<close>

type_synonym storage = "string option"

datatype error = TypeError

definition default_data :: json where
  "default_data =
     JObj [(''expenses'', JArr []), (''categories'', JArr []),
           (''income'', JObj []), (''limits'', JObj [])]"

definition getStoredData :: "storage \<Rightarrow> json" where
  "getStoredData st =
     (case st of
        None \<Rightarrow> default_data
      | Some stored \<Rightarrow>
          if stored = [] then default_data
          else (case JSON_parse stored of None \<Rightarrow> default_data | Some data \<Rightarrow> data))"

definition saveData :: "json \<Rightarrow> storage \<Rightarrow> storage" where
  "saveData data st = Some (JSON_stringify data)"


text \<open>
  Reading a property \<open>v.k\<close> (\<open>None\<close> is \<open>undefined\<close>) and assigning one in strict mode.
  Only an object has properties of its own here; a property assigned to an array is not
  an element, so serialisation does not see it.
\<close>

fun get_prop :: "json \<Rightarrow> string \<Rightarrow> error + json option" where
  "get_prop JNull k = Inl TypeError"
| "get_prop (JObj kvs) k = Inr (map_of kvs k)"
| "get_prop _ k = Inr None"

fun set_prop :: "json \<Rightarrow> string \<Rightarrow> json \<Rightarrow> error + json" where
  "set_prop (JObj kvs) k x = Inr (JObj (obj_set k x kvs))"
| "set_prop (JArr xs) k x = Inr (JArr xs)"
| "set_prop _ k x = Inl TypeError"

text \<open>The array methods with a callback that may throw.\<close>

fun filterE :: "('a \<Rightarrow> error + bool) \<Rightarrow> 'a list \<Rightarrow> error + 'a list" where
  "filterE p [] = Inr []"
| "filterE p (x # xs) =
     (case p x of
        Inl e \<Rightarrow> Inl e
      | Inr b \<Rightarrow>
          (case filterE p xs of
             Inl e \<Rightarrow> Inl e
           | Inr ys \<Rightarrow> Inr (if b then x # ys else ys)))"

fun findIndexE :: "('a \<Rightarrow> error + bool) \<Rightarrow> 'a list \<Rightarrow> error + nat option" where
  "findIndexE p [] = Inr None"
| "findIndexE p (x # xs) =
     (case p x of
        Inl e \<Rightarrow> Inl e
      | Inr b \<Rightarrow>
          if b then Inr (Some 0)
          else (case findIndexE p xs of
                  Inl e \<Rightarrow> Inl e
                | Inr None \<Rightarrow> Inr None
                | Inr (Some i) \<Rightarrow> Inr (Some (Suc i))))"

fun someE :: "('a \<Rightarrow> error + bool) \<Rightarrow> 'a list \<Rightarrow> error + bool" where
  "someE p [] = Inr False"
| "someE p (x # xs) =
     (case p x of
        Inl e \<Rightarrow> Inl e
      | Inr b \<Rightarrow> if b then Inr True else someE p xs)"


text \<open>\<open>a >= b\<close> on two Date objects: false when either is invalid.\<close>

definition date_ge :: "int option \<Rightarrow> int option \<Rightarrow> bool" where
  "date_ge a b = (case (a, b) of (Some x, Some y) \<Rightarrow> y \<le> x | _ \<Rightarrow> False)"

text \<open>\<open>now\<close> is the reading of the clock that \<open>new Date()\<close> or \<open>Date.now()\<close> returns.\<close>

definition twelveMonthsAgo :: "platform \<Rightarrow> int \<Rightarrow> int option" where
  "twelveMonthsAgo P now =
     setMonth P (Some now) (map_option (\<lambda>m. m - 12) (getMonth P (Some now)))"

definition cleanupOldData :: "platform \<Rightarrow> int \<Rightarrow> storage \<Rightarrow> error + storage" where
  "cleanupOldData P now st =
     (let data = getStoredData st in
      if \<not> truthy (Some data) then Inr st
      else
        (case get_prop data ''expenses'' of
           Inl e \<Rightarrow> Inl e
         | Inr ex \<Rightarrow>
             if \<not> truthy ex then Inr st
             else
               (case ex of
                  Some (JArr es) \<Rightarrow>
                    (case filterE
                            (\<lambda>expense.
                               case get_prop expense ''date'' of
                                 Inl e \<Rightarrow> Inl e
                               | Inr dv \<Rightarrow> Inr (date_ge (new_Date P dv) (twelveMonthsAgo P now)))
                            es of
                       Inl e \<Rightarrow> Inl e
                     | Inr kept \<Rightarrow>
                         (case set_prop data ''expenses'' (JArr kept) of
                            Inl e \<Rightarrow> Inl e
                          | Inr data' \<Rightarrow> Inr (saveData data' st)))
                | _ \<Rightarrow> Inl TypeError)))"


text \<open>
  \<open>addExpense(expense)\<close>; \<open>now\<close> is the reading of \<open>Date.now()\<close> and \<open>now2\<close> the one of
  \<open>new Date()\<close>, both valid time values. The result is the expense and the new state.
\<close>

definition addExpense ::
  "platform \<Rightarrow> int \<Rightarrow> int \<Rightarrow> json \<Rightarrow> storage \<Rightarrow> error + json \<times> storage" where
  "addExpense P now now2 expense st =
     (let data = getStoredData st in
      case set_prop expense ''id'' (JStr (js_to_string (JNum (num_of_int now)))) of
        Inl e \<Rightarrow> Inl e
      | Inr e1 \<Rightarrow>
          (case get_prop e1 ''date'' of
             Inl e \<Rightarrow> Inl e
           | Inr dv \<Rightarrow>
               (case set_prop e1 ''date''
                       (case dv of
                          Some d \<Rightarrow> if truthy dv then d else JStr (toISOString now2)
                        | None \<Rightarrow> JStr (toISOString now2)) of
                  Inl e \<Rightarrow> Inl e
                | Inr e2 \<Rightarrow>
                    (case get_prop data ''expenses'' of
                       Inl e \<Rightarrow> Inl e
                     | Inr (Some (JArr es)) \<Rightarrow>
                         (case set_prop data ''expenses'' (JArr (es @ [e2])) of
                            Inl e \<Rightarrow> Inl e
                          | Inr data' \<Rightarrow> Inr (e2, saveData data' st))
                     | Inr _ \<Rightarrow> Inl TypeError))))"


definition deleteExpense :: "json \<Rightarrow> storage \<Rightarrow> error + storage" where
  "deleteExpense id' st =
     (let data = getStoredData st in
      case get_prop data ''expenses'' of
        Inl e \<Rightarrow> Inl e
      | Inr (Some (JArr es)) \<Rightarrow>
          (case filterE
                  (\<lambda>expense.
                     case get_prop expense ''id'' of
                       Inl e \<Rightarrow> Inl e
                     | Inr idv \<Rightarrow> Inr (\<not> strict_eq idv (Some id')))
                  es of
             Inl e \<Rightarrow> Inl e
           | Inr kept \<Rightarrow>
               (case set_prop data ''expenses'' (JArr kept) of
                  Inl e \<Rightarrow> Inl e
                | Inr data' \<Rightarrow> Inr (saveData data' st)))
      | Inr _ \<Rightarrow> Inl TypeError)"

text \<open>
  The own enumerable properties that an object spread \<open>{...v}\<close> copies, and the spread
  of two values into a fresh object.
\<close>

fun spread_props :: "json \<Rightarrow> (string \<times> json) list" where
  "spread_props (JObj kvs) = kvs"
| "spread_props (JArr xs) = zip (map show_nat [0..<length xs]) xs"
| "spread_props (JStr s) = zip (map show_nat [0..<length s]) (map (\<lambda>c. JStr [c]) s)"
| "spread_props _ = []"

definition assign_all :: "(string \<times> json) list \<Rightarrow> (string \<times> json) list \<Rightarrow> (string \<times> json) list" where
  "assign_all kvs acc = fold (\<lambda>(k, v) a. obj_set k v a) kvs acc"

definition spread2 :: "json \<Rightarrow> json \<Rightarrow> json" where
  "spread2 a b = JObj (assign_all (spread_props b) (assign_all (spread_props a) []))"

definition updateExpense :: "json \<Rightarrow> json \<Rightarrow> storage \<Rightarrow> error + json \<times> storage" where
  "updateExpense id' updatedExpense st =
     (let data = getStoredData st in
      case get_prop data ''expenses'' of
        Inl e \<Rightarrow> Inl e
      | Inr (Some (JArr es)) \<Rightarrow>
          (case findIndexE
                  (\<lambda>expense.
                     case get_prop expense ''id'' of
                       Inl e \<Rightarrow> Inl e
                     | Inr idv \<Rightarrow> Inr (strict_eq idv (Some id')))
                  es of
             Inl e \<Rightarrow> Inl e
           | Inr None \<Rightarrow> Inr (JNull, st)
           | Inr (Some index) \<Rightarrow>
               (let merged = spread2 (es ! index) updatedExpense in
                case set_prop data ''expenses'' (JArr (es[index := merged])) of
                  Inl e \<Rightarrow> Inl e
                | Inr data' \<Rightarrow> Inr (merged, saveData data' st)))
      | Inr _ \<Rightarrow> Inl TypeError)"

text \<open>\<open>monthKey || this.getMonthKey()\<close>; \<open>None\<close> is an argument left out or \<open>null\<close>.\<close>

definition key_or_current :: "platform \<Rightarrow> int \<Rightarrow> string option \<Rightarrow> string" where
  "key_or_current P now monthKey =
     (case monthKey of
        None \<Rightarrow> getMonthKey P (Some now)
      | Some k \<Rightarrow> if k = [] then getMonthKey P (Some now) else k)"

definition setIncome ::
  "platform \<Rightarrow> int \<Rightarrow> json \<Rightarrow> string option \<Rightarrow> storage \<Rightarrow> error + jsnum \<times> storage" where
  "setIncome P now amount monthKey st =
     (let data = getStoredData st in
      case get_prop data ''income'' of
        Inl e \<Rightarrow> Inl e
      | Inr inc0 \<Rightarrow>
          (case (case inc0 of
                   Some i \<Rightarrow> if truthy inc0 then Inr (data, i)
                             else map_sum id (\<lambda>d. (d, JObj [])) (set_prop data ''income'' (JObj []))
                 | None \<Rightarrow> map_sum id (\<lambda>d. (d, JObj [])) (set_prop data ''income'' (JObj []))) of
             Inl e \<Rightarrow> Inl e
           | Inr (data1, income) \<Rightarrow>
               (let key = key_or_current P now monthKey;
                    incomeValue = parseFloat (Some amount)
                in case set_prop income key (JNum incomeValue) of
                     Inl e \<Rightarrow> Inl e
                   | Inr income' \<Rightarrow>
                       (case set_prop data1 ''income'' income' of
                          Inl e \<Rightarrow> Inl e
                        | Inr data2 \<Rightarrow> Inr (incomeValue, saveData data2 st)))))"

definition getIncome :: "platform \<Rightarrow> int \<Rightarrow> string option \<Rightarrow> storage \<Rightarrow> error + json" where
  "getIncome P now monthKey st =
     (let data = getStoredData st in
      case get_prop data ''income'' of
        Inl e \<Rightarrow> Inl e
      | Inr inc \<Rightarrow>
          (case inc of
             None \<Rightarrow> Inr (JNum (Fin 0 0))
           | Some income \<Rightarrow>
               if \<not> truthy inc then Inr (JNum (Fin 0 0))
               else
                 (let key = key_or_current P now monthKey in
                  case get_prop income key of
                    Inl e \<Rightarrow> Inl e
                  | Inr v \<Rightarrow>
                      Inr (case v of
                             Some x \<Rightarrow> if truthy v then x else JNum (Fin 0 0)
                           | None \<Rightarrow> JNum (Fin 0 0)))))"






definition getCategories :: "storage \<Rightarrow> error + json" where
  "getCategories st =
     (case get_prop (getStoredData st) ''categories'' of
        Inl e \<Rightarrow> Inl e
      | Inr c \<Rightarrow> Inr (case c of Some v \<Rightarrow> if truthy c then v else JArr [] | None \<Rightarrow> JArr []))"

text \<open>\<open>addCategory(categoryName)\<close>: the result \<open>None\<close> is \<open>null\<close>.\<close>

definition addCategory :: "string \<Rightarrow> storage \<Rightarrow> error + string option \<times> storage" where
  "addCategory categoryName st =
     (let data = getStoredData st in
      case get_prop data ''categories'' of
        Inl e \<Rightarrow> Inl e
      | Inr c0 \<Rightarrow>
          (case (case c0 of
                   Some c \<Rightarrow> if truthy c0 then Inr (data, c)
                             else map_sum id (\<lambda>d. (d, JArr [])) (set_prop data ''categories'' (JArr []))
                 | None \<Rightarrow> map_sum id (\<lambda>d. (d, JArr [])) (set_prop data ''categories'' (JArr []))) of
             Inl e \<Rightarrow> Inl e
           | Inr (data1, categories) \<Rightarrow>
               (let categoryLower = toLowerCase (trim categoryName) in
                case categories of
                  JArr cs \<Rightarrow>
                    (case someE
                            (\<lambda>cat. case cat of
                                     JStr s \<Rightarrow> Inr (toLowerCase s = categoryLower)
                                   | _ \<Rightarrow> Inl TypeError)
                            cs of
                       Inl e \<Rightarrow> Inl e
                     | Inr exists \<Rightarrow>
                         if exists then Inr (None, st)
                         else
                           (case set_prop data1 ''categories''
                                   (JArr (cs @ [JStr (trim categoryName)])) of
                              Inl e \<Rightarrow> Inl e
                            | Inr data2 \<Rightarrow> Inr (Some (trim categoryName), saveData data2 st)))
                | _ \<Rightarrow> Inl TypeError)))"

section \<open>Notions used in the statements\<close>


text \<open>The value of a property, \<open>undefined\<close> also where the read throws.\<close>

definition field :: "json \<Rightarrow> string \<Rightarrow> json option" where
  "field e k = (case get_prop e k of Inl _ \<Rightarrow> None | Inr v \<Rightarrow> v)"

text \<open>The Date that \<open>new Date(expense.date)\<close> constructs for an expense.\<close>

definition expense_date :: "platform \<Rightarrow> json \<Rightarrow> int option" where
  "expense_date P e = new_Date P (field e ''date'')"

text \<open>The expense list of a state: the array under \<open>expenses\<close>, with no \<open>null\<close> entry.\<close>

definition expense_list :: "storage \<Rightarrow> json list \<Rightarrow> bool" where
  "expense_list st es \<longleftrightarrow>
     get_prop (getStoredData st) ''expenses'' = Inr (Some (JArr es)) \<and> JNull \<notin> set es"

text \<open>
  The category list of a state: the names in the array under \<open>categories\<close>, and no name
  when the root record has no such property.
\<close>

definition category_list :: "storage \<Rightarrow> string list \<Rightarrow> bool" where
  "category_list st cs \<longleftrightarrow>
     (case getStoredData st of
        JObj kvs \<Rightarrow>
          (case map_of kvs ''categories'' of
             None \<Rightarrow> cs = []
           | Some v \<Rightarrow> v = JArr (map JStr cs))
      | _ \<Rightarrow> False)"

text \<open>
  The income table of a state: the properties of the object under \<open>income\<close>, and none
  when the root record has no such property.
\<close>

definition income_table :: "storage \<Rightarrow> (string \<times> json) list \<Rightarrow> bool" where
  "income_table st inc \<longleftrightarrow>
     (case getStoredData st of
        JObj kvs \<Rightarrow>
          (case map_of kvs ''income'' of
             None \<Rightarrow> inc = []
           | Some v \<Rightarrow> v = JObj inc)
      | _ \<Rightarrow> False)"

text \<open>The income that \<open>getIncome\<close> reads for a month from an income table.\<close>

definition income_of :: "(string \<times> json) list \<Rightarrow> string \<Rightarrow> json" where
  "income_of inc k =
     (case map_of inc k of
        None \<Rightarrow> JNum (Fin 0 0)
      | Some x \<Rightarrow> if truthy (Some x) then x else JNum (Fin 0 0))"

text \<open>
  The month key of an expense, the amount that an expense contributes to a total
  (zero when \<open>parseFloat\<close> gives \<open>NaN\<close>), and the sum of the contributions of a list,
  added from the left as \<open>reduce\<close> does.
\<close>

definition month_of :: "platform \<Rightarrow> json \<Rightarrow> string" where
  "month_of P e = getMonthKey P (expense_date P e)"

definition amount_of :: "json \<Rightarrow> jsnum" where
  "amount_of e = (let amt = parseFloat (field e ''amount'') in if isNaN amt then Fin 0 0 else amt)"


text \<open>The ids of a list of expenses, and the id that \<open>addExpense\<close> derives from the clock.\<close>

definition expense_ids :: "json list \<Rightarrow> json option list" where
  "expense_ids es = map (\<lambda>e. field e ''id'') es"

definition clock_id :: "int \<Rightarrow> json" where
  "clock_id now = JStr (js_to_string (JNum (num_of_int now)))"

section \<open>Sample data for concrete runs\<close>

text \<open>A host in the UTC time zone whose \<open>Date.parse\<close> knows the standard format only.\<close>

definition utc_platform :: platform where
  "utc_platform = \<lparr>localTZA = (\<lambda>t isUTC. 0), dateFallback = (\<lambda>s. None)\<rparr>"

definition expense :: "string \<Rightarrow> string \<Rightarrow> string \<Rightarrow> int \<Rightarrow> json" where
  "expense i d c a =
     JObj [(''date'', JStr d), (''category'', JStr c), (''amount'', JNum (Fin a 0)),
           (''comment'', JStr ''x''), (''id'', JStr i)]"

definition store_of :: "json list \<Rightarrow> string list \<Rightarrow> (string \<times> json) list \<Rightarrow> storage" where
  "store_of es cs inc =
     saveData (JObj [(''expenses'', JArr es), (''categories'', JArr (map JStr cs)),
                     (''income'', JObj inc), (''limits'', JObj [])]) None"

section \<open>Navigation controller (app.js, showScreen and navigateBack)\<close>






















lemma below_ten: "(k::nat) < 10 \<Longrightarrow> k \<in> {0,1,2,3,4,5,6,7,8,9}"
  by (simp only: insert_iff empty_iff) presburger

lemma is_digit_digit_char [simp]: "is_digit (digit_char n)"
proof -
  have "n mod 10 < 10" by simp
  then have "n mod 10 \<in> {0,1,2,3,4,5,6,7,8,9}" by (rule below_ten)
  then show ?thesis
    unfolding digit_char_def is_digit_def by (elim insertE; simp)
qed

lemma digit_val_digit_char [simp]: "digit_val (digit_char n) = n mod 10"
proof -
  have "n mod 10 < 10" by simp
  then have "n mod 10 \<in> {0,1,2,3,4,5,6,7,8,9}" by (rule below_ten)
  then show ?thesis
    unfolding digit_char_def digit_val_def by (elim insertE; simp)
qed

lemma digit_char_zero_iff: "n < 10 \<Longrightarrow> digit_char n = CHR ''0'' \<longleftrightarrow> n = 0"
proof -
  assume "n < 10"
  then have "n \<in> {0,1,2,3,4,5,6,7,8,9}" by (rule below_ten)
  then show ?thesis
    unfolding digit_char_def by (elim insertE; simp)
qed

lemma show_nat_digits: "\<forall>c \<in> set (show_nat n). is_digit c"
  by (induction n rule: show_nat.induct) (subst show_nat.simps, auto)

lemma show_nat_nonempty [simp]: "show_nat n \<noteq> []"
  by (subst show_nat.simps) auto

lemma nat_of_digits_append:
  "nat_of_digits (xs @ [c]) = 10 * nat_of_digits xs + digit_val c"
  by (simp add: nat_of_digits_def)

lemma nat_of_digits_show_nat [simp]: "nat_of_digits (show_nat n) = n"
proof (induction n rule: show_nat.induct)
  case (1 n)
  show ?case
  proof (cases "n < 10")
    case True
    then show ?thesis by (subst show_nat.simps) (simp add: nat_of_digits_def)
  next
    case False
    then show ?thesis using 1
      by (subst show_nat.simps) (simp add: nat_of_digits_append)
  qed
qed

lemma hd_show_nat: "0 < n \<Longrightarrow> hd (show_nat n) \<noteq> CHR ''0''"
proof (induction n rule: show_nat.induct)
  case (1 n)
  show ?case
  proof (cases "n < 10")
    case True
    then show ?thesis using 1(2) by (subst show_nat.simps) (simp add: digit_char_zero_iff)
  next
    case False
    then have "0 < n div 10" by simp
    with 1 False show ?thesis by (subst show_nat.simps) simp
  qed
qed

lemma show_nat_inj: "show_nat a = show_nat b \<Longrightarrow> a = b"
  by (metis nat_of_digits_show_nat)

lemma takeWhile_digits:
  assumes "\<forall>c \<in> set ds. is_digit c" and "r = [] \<or> \<not> is_digit (hd r)"
  shows "takeWhile is_digit (ds @ r) = ds" and "dropWhile is_digit (ds @ r) = r"
proof -
  have t: "takeWhile is_digit r = []" using assms(2) by (cases r) auto
  have d: "dropWhile is_digit r = r" using assms(2) by (cases r) auto
  show "takeWhile is_digit (ds @ r) = ds" using assms(1) t by (simp add: takeWhile_append2)
  show "dropWhile is_digit (ds @ r) = r" using assms(1) d by (simp add: dropWhile_append2)
qed

lemma nat_of_digits_app:
  "nat_of_digits (xs @ ys) = nat_of_digits xs * 10 ^ length ys + nat_of_digits ys"
proof (induction ys rule: rev_induct)
  case Nil
  then show ?case by (simp add: nat_of_digits_def)
next
  case (snoc y ys)
  have "nat_of_digits (xs @ ys @ [y]) = 10 * nat_of_digits (xs @ ys) + digit_val y"
    using nat_of_digits_append [of "xs @ ys" y] by simp
  then show ?case using snoc by (simp add: nat_of_digits_append algebra_simps)
qed

lemma nat_of_digits_Nil [simp]: "nat_of_digits [] = 0"
  by (simp add: nat_of_digits_def)

lemma nat_of_digits_Cons:
  "nat_of_digits (c # xs) = digit_val c * 10 ^ length xs + nat_of_digits xs"
  using nat_of_digits_app [of "[c]" xs] by (simp add: nat_of_digits_def)

lemma digit_val_zero [simp]: "digit_val CHR ''0'' = 0"
  by (simp add: digit_val_def)

lemma nat_of_digits_zeros [simp]: "nat_of_digits (replicate z CHR ''0'' @ ds) = nat_of_digits ds"
  by (induction z) (simp_all add: nat_of_digits_Cons)

lemma delim_not_digit: "delim r \<Longrightarrow> r = [] \<or> \<not> is_digit (hd r)"
  by (auto simp: delim_def is_digit_def)

lemma parse_fraction_delim: "delim r \<Longrightarrow> parse_fraction r = Some ([], r)"
  by (cases r) (auto simp: delim_def parse_fraction_def)

lemma parse_exponent_delim: "delim r \<Longrightarrow> parse_exponent r = Some (0, r)"
  by (cases r) (auto simp: delim_def parse_exponent_def)

lemma parse_fraction_dot:
  assumes "\<forall>c \<in> set fs. is_digit c" and "fs \<noteq> []" and "r = [] \<or> \<not> is_digit (hd r)"
  shows "parse_fraction (CHR ''.'' # fs @ r) = Some (fs, r)"
  using assms takeWhile_digits [of fs r] by (simp add: parse_fraction_def)

lemma parse_fraction_e: "parse_fraction (CHR ''e'' # r) = Some ([], CHR ''e'' # r)"
  by (simp add: parse_fraction_def)

lemma parse_exponent_e:
  assumes "delim r"
  shows "parse_exponent (CHR ''e'' # (if 0 \<le> x then ''+'' else ''-'') @ show_nat (nat \<bar>x\<bar>) @ r)
         = Some (x, r)"
proof -
  have nd: "r = [] \<or> \<not> is_digit (hd r)" using assms by (rule delim_not_digit)
  have t: "takeWhile is_digit (show_nat n @ r) = show_nat n"
    and d: "dropWhile is_digit (show_nat n @ r) = r" for n
    using takeWhile_digits [OF show_nat_digits nd] by auto
  show ?thesis
    by (cases "0 \<le> x") (simp_all add: parse_exponent_def t d Let_def)
qed

lemma digit_char_0 [simp]: "digit_char 0 = CHR ''0''"
  by (simp add: digit_char_def)

lemma show_nat_times10: "0 < n \<Longrightarrow> show_nat (10 * n) = show_nat n @ ''0''"
  by (subst show_nat.simps) simp

lemma strip_zeros_spec:
  "strip_zeros f a = (s, z) \<Longrightarrow> 0 < a \<Longrightarrow>
     0 < s \<and> a = s * 10 ^ z \<and> show_nat a = show_nat s @ replicate z CHR ''0''"
proof (induction f arbitrary: a s z)
  case 0
  then show ?case by simp
next
  case (Suc f)
  show ?case
  proof (cases "a mod 10 = 0")
    case False
    with Suc.prems show ?thesis by simp
  next
    case True
    obtain s' z' where sz: "strip_zeros f (a div 10) = (s', z')" by (cases "strip_zeros f (a div 10)")
    from True Suc.prems(2) have pos: "0 < a div 10" by (simp add: div_greater_zero_iff) presburger
    from True have a10: "a = 10 * (a div 10)" by presburger
    from Suc.prems True sz have eq: "s = s'" "z = Suc z'" by auto
    from Suc.IH [OF sz pos] have ih: "0 < s'" "a div 10 = s' * 10 ^ z'"
      "show_nat (a div 10) = show_nat s' @ replicate z' CHR ''0''" by auto
    have "show_nat a = show_nat (a div 10) @ ''0''"
      using show_nat_times10 [OF pos] a10 by simp
    then have "show_nat a = show_nat s @ replicate z CHR ''0''"
      using ih(3) eq by (simp add: replicate_append_same)
    moreover have "a = s * 10 ^ z" using a10 ih(2) eq by simp
    ultimately show ?thesis using ih(1) eq by simp
  qed
qed

lemma norm_fin_normal: "d = 0 \<or> m mod 10 \<noteq> 0 \<Longrightarrow> norm_fin m d = Fin m d"
  by (cases d) auto

lemma neg_mod10: "(- int a) mod 10 = 0 \<longleftrightarrow> int a mod 10 = 0"
  by presburger

lemma mk_fin_neg_normal:
  assumes "d = 0 \<or> a mod 10 \<noteq> 0"
  shows "mk_fin (int a) (- int d) = Fin (int a) d" and "mk_fin (- int a) (- int d) = Fin (- int a) d"
proof -
  have 1: "d = 0 \<or> int a mod 10 \<noteq> 0" using assms by (metis of_nat_mod of_nat_numeral of_nat_eq_0_iff)
  then have 2: "d = 0 \<or> (- int a) mod 10 \<noteq> 0" by (simp add: neg_mod10)
  show "mk_fin (int a) (- int d) = Fin (int a) d"
    using 1 by (cases "d = 0") (simp_all add: mk_fin_def norm_fin_normal)
  show "mk_fin (- int a) (- int d) = Fin (- int a) d"
    using 2 by (cases "d = 0") (simp_all add: mk_fin_def norm_fin_normal)
qed

lemma parse_unsigned_parts:
  assumes "\<forall>c \<in> set is. is_digit c" and "is \<noteq> []"
    and "\<not> (1 < length is \<and> hd is = CHR ''0'')"
    and "q = [] \<or> \<not> is_digit (hd q)"
    and "parse_fraction q = Some (fs, r1)" and "parse_exponent r1 = Some (x, r2)"
  shows "parse_unsigned (is @ q) = Some ((nat_of_digits (is @ fs), x - int (length fs)), r2)"
  using assms takeWhile_digits [of "is" q]
  by (simp add: parse_unsigned_def Let_def)

lemma not_digit_dot [simp]: "\<not> is_digit CHR ''.''" "\<not> is_digit CHR ''e''"
  by (simp_all add: is_digit_def)

lemma is_digit_zero [simp]: "is_digit CHR ''0''"
  by (simp add: is_digit_def)

lemma mk_fin_zero_exp: "mk_fin m 0 = Fin m 0"
  by (simp add: mk_fin_def)

lemma parse_unsigned_pos:
  assumes a: "0 < a" and nf: "d = 0 \<or> a mod 10 \<noteq> 0" and dl: "delim r"
  shows "\<exists>M E. parse_unsigned (pos_to_string a d @ r) = Some ((M, E), r)
           \<and> mk_fin (int M) E = Fin (int a) d \<and> mk_fin (- int M) E = Fin (- int a) d"
proof -
  have nd: "r = [] \<or> \<not> is_digit (hd r)" using dl by (rule delim_not_digit)
  have pf: "parse_fraction r = Some ([], r)" using dl by (rule parse_fraction_delim)
  have pe: "parse_exponent r = Some (0, r)" using dl by (rule parse_exponent_delim)
  show ?thesis
  proof (cases "d = 0 \<and> length (show_nat a) \<le> 21")
    case True
    then have out: "pos_to_string a d = show_nat a" by (simp add: pos_to_string_def)
    have "parse_unsigned (show_nat a @ r) = Some ((nat_of_digits (show_nat a @ []), 0 - int (length ([]::string))), r)"
      using hd_show_nat [OF a]
      by (intro parse_unsigned_parts [OF show_nat_digits _ _ nd pf pe]) auto
    then show ?thesis using True out by (simp add: mk_fin_zero_exp)
  next
    case False
    define sz where "sz = (if d = 0 then strip_zeros (length (show_nat a)) a else (a, 0))"
    obtain s z where szeq: "sz = (s, z)" by (cases sz)
    have spec: "0 < s \<and> a = s * 10 ^ z \<and> show_nat a = show_nat s @ replicate z CHR ''0''"
    proof (cases "d = 0")
      case True
      then have "strip_zeros (length (show_nat a)) a = (s, z)" using szeq sz_def by simp
      then show ?thesis using a by (rule strip_zeros_spec)
    next
      case False
      then have "s = a" "z = 0" using szeq sz_def by auto
      then show ?thesis using a by simp
    qed
    have dz: "d \<noteq> 0 \<Longrightarrow> s = a \<and> z = 0" using szeq sz_def by auto
    define ds where "ds = show_nat s"
    define k where "k = int (length ds)"
    define n where "n = k + int z - int d"
    have dsd: "\<forall>c \<in> set ds. is_digit c" unfolding ds_def by (rule show_nat_digits)
    have dsne: "ds \<noteq> []" unfolding ds_def by simp
    have hdds: "hd ds \<noteq> CHR ''0''" unfolding ds_def using spec by (simp add: hd_show_nat)
    have nds: "nat_of_digits ds = s" unfolding ds_def by simp
    have kpos: "1 \<le> k" unfolding k_def using dsne by (cases ds) auto
    have "length (show_nat a) = length (show_nat s @ replicate z CHR ''0'')"
      using spec by (elim conjE) (erule arg_cong)
    then have len0: "int (length (show_nat a)) = k + int z"
      unfolding k_def ds_def by simp
    have d0n: "d = 0 \<Longrightarrow> 21 < n" using False len0 unfolding n_def by simp
    have o1: "pos_to_string a d = point_string ds n"
      unfolding n_def k_def ds_def
      by (simp only: pos_to_string_def if_not_P [OF False] Let_def sz_def [symmetric] szeq
          fst_conv snd_conv)
    have out: "pos_to_string a d =
        (if 0 < n \<and> n \<le> 21 then take (nat n) ds @ ''.'' @ drop (nat n) ds
         else if - 6 < n \<and> n \<le> 0 then ''0.'' @ replicate (nat (- n)) CHR ''0'' @ ds
         else (if k = 1 then ds else hd ds # ''.'' @ tl ds)
              @ ''e'' @ (if 0 \<le> n - 1 then ''+'' else ''-'') @ show_nat (nat \<bar>n - 1\<bar>))"
      unfolding o1 point_string_def Let_def k_def by (rule refl)
    have fin_neg: "mk_fin (int a) (- int d) = Fin (int a) d" "mk_fin (- int a) (- int d) = Fin (- int a) d"
      using mk_fin_neg_normal [OF nf] by auto
    consider (dot) "0 < n \<and> n \<le> 21" | (zero) "\<not> (0 < n \<and> n \<le> 21)" "- 6 < n \<and> n \<le> 0"
      | (ex) "\<not> (0 < n \<and> n \<le> 21)" "\<not> (- 6 < n \<and> n \<le> 0)" by blast
    then show ?thesis
    proof cases
      case dot
      then have dpos: "d \<noteq> 0" using d0n by auto
      then have sa: "s = a" "z = 0" using dz by auto
      have nlt: "nat n < length ds" using dot dpos sa unfolding n_def k_def by linarith
      have lenF: "int (length (drop (nat n) ds)) = int d"
        using dot nlt sa unfolding n_def k_def by (simp add: of_nat_diff)
      let ?I = "take (nat n) ds" and ?F = "drop (nat n) ds"
      have I1: "\<forall>c \<in> set ?I. is_digit c" using dsd by (meson in_set_takeD)
      have I2: "?I \<noteq> []" using dot dsne by simp
      have I3: "hd ?I \<noteq> CHR ''0''" using hdds dot by (simp add: hd_take)
      have F1: "\<forall>c \<in> set ?F. is_digit c" using dsd by (meson in_set_dropD)
      have F2: "?F \<noteq> []" using nlt by simp
      have pfr: "parse_fraction (CHR ''.'' # ?F @ r) = Some (?F, r)"
        using F1 F2 nd by (rule parse_fraction_dot)
      have "parse_unsigned (?I @ (CHR ''.'' # ?F @ r))
            = Some ((nat_of_digits (?I @ ?F), 0 - int (length ?F)), r)"
        using I3 by (intro parse_unsigned_parts [OF I1 I2 _ _ pfr pe]) auto
      then have "parse_unsigned (pos_to_string a d @ r) = Some ((a, - int d), r)"
        using out dot nds sa lenF by simp
      then show ?thesis using fin_neg by auto
    next
      case zero
      then have dpos: "d \<noteq> 0" using d0n by auto
      then have sa: "s = a" "z = 0" using dz by auto
      let ?F = "replicate (nat (- n)) CHR ''0'' @ ds"
      have lenF: "int (length ?F) = int d" using zero sa unfolding n_def k_def by simp
      have F1: "\<forall>c \<in> set ?F. is_digit c" using dsd by auto
      have F2: "?F \<noteq> []" using dsne by simp
      have pfr: "parse_fraction (CHR ''.'' # ?F @ r) = Some (?F, r)"
        using F1 F2 nd by (rule parse_fraction_dot)
      have "parse_unsigned (''0'' @ (CHR ''.'' # ?F @ r))
            = Some ((nat_of_digits (''0'' @ ?F), 0 - int (length ?F)), r)"
        by (intro parse_unsigned_parts [OF _ _ _ _ pfr pe]) simp_all
      moreover have "nat_of_digits (''0'' @ ?F) = a"
        using nds sa by (simp add: nat_of_digits_Cons)
      ultimately have "parse_unsigned (pos_to_string a d @ r) = Some ((a, - int d), r)"
        using out zero lenF by simp
      then show ?thesis using fin_neg by auto
    next
      case ex
      let ?X = "CHR ''e'' # (if 0 \<le> n - 1 then ''+'' else ''-'') @ show_nat (nat \<bar>n - 1\<bar>) @ r"
      have pex: "parse_exponent ?X = Some (n - 1, r)" using dl by (rule parse_exponent_e)
      have fin: "mk_fin (int s) (int z - int d) = Fin (int a) d
               \<and> mk_fin (- int s) (int z - int d) = Fin (- int a) d"
      proof (cases "d = 0")
        case True
        then show ?thesis using spec by (simp add: mk_fin_def)
      next
        case False
        then show ?thesis using dz fin_neg by simp
      qed
      show ?thesis
      proof (cases "k = 1")
        case True
        have o: "pos_to_string a d @ r = ds @ ?X" using out ex True by simp
        have "parse_unsigned (ds @ ?X) = Some ((nat_of_digits (ds @ []), (n - 1) - int (length ([]::string))), r)"
          using True unfolding k_def
          by (intro parse_unsigned_parts [OF dsd dsne _ _ parse_fraction_e pex]) auto
        then have "parse_unsigned (pos_to_string a d @ r) = Some ((s, int z - int d), r)"
          using o nds True unfolding n_def by simp
        then show ?thesis using fin by auto
      next
        case False
        then have k2: "2 \<le> k" using kpos by simp
        then obtain c cs where dscs: "ds = c # cs" "cs \<noteq> []"
          unfolding k_def by (cases ds; cases "tl ds") auto
        have o: "pos_to_string a d @ r = [c] @ (CHR ''.'' # cs @ ?X)"
          using out ex False dscs by simp
        have csd: "\<forall>x \<in> set cs. is_digit x" using dsd dscs by simp
        have pfr: "parse_fraction (CHR ''.'' # cs @ ?X) = Some (cs, ?X)"
          using csd dscs(2) by (intro parse_fraction_dot) auto
        have "parse_unsigned ([c] @ (CHR ''.'' # cs @ ?X))
              = Some ((nat_of_digits ([c] @ cs), (n - 1) - int (length cs)), r)"
          using dsd dscs by (intro parse_unsigned_parts [OF _ _ _ _ pfr pex]) auto
        moreover have "(n - 1) - int (length cs) = int z - int d"
          using dscs unfolding n_def k_def by simp
        ultimately have "parse_unsigned (pos_to_string a d @ r) = Some ((s, int z - int d), r)"
          using o nds dscs by simp
        then show ?thesis using fin by auto
      qed
    qed
  qed
qed

lemma norm_fin_result: "\<exists>m' d'. norm_fin m d = Fin m' d' \<and> (d' = 0 \<or> m' mod 10 \<noteq> 0)"
  by (induction m d rule: norm_fin.induct) auto

lemma norm_fin_idem: "norm_fin m d = Fin m' d' \<Longrightarrow> norm_fin m' d' = Fin m' d'"
  using norm_fin_result [of m d] by (auto simp: norm_fin_normal)

lemma normalize_num_idem [simp]: "normalize_num (normalize_num x) = normalize_num x"
proof (cases x)
  case (Fin m d)
  obtain m' d' where "norm_fin m d = Fin m' d'" using norm_fin_result by blast
  then show ?thesis using Fin norm_fin_idem by simp
qed simp_all

lemma is_finite_normalize [simp]: "is_finite (normalize_num x) = is_finite x"
proof (cases x)
  case (Fin m d)
  obtain m' d' where "norm_fin m d = Fin m' d'" using norm_fin_result by blast
  then show ?thesis using Fin by simp
qed simp_all

lemma parse_unsigned_hd:
  assumes "parse_unsigned q = Some x"
  shows "q \<noteq> [] \<and> is_digit (hd q)"
proof -
  have "takeWhile is_digit q \<noteq> []"
    using assms by (auto simp: parse_unsigned_def Let_def split: if_splits)
  then show ?thesis by (cases q) (auto split: if_splits)
qed

lemma not_digit_minus [simp]: "\<not> is_digit CHR ''-''"
  by (simp add: is_digit_def)

lemma parse_number_roundtrip:
  assumes "is_finite x" and "delim r"
  shows "parse_number (num_to_string x @ r) = Some (normalize_num x, r)"
proof -
  obtain m0 d0 where x: "x = Fin m0 d0" using assms(1) by (cases x) auto
  obtain m d where n: "norm_fin m0 d0 = Fin m d" and nf: "d = 0 \<or> m mod 10 \<noteq> 0"
    using norm_fin_result by blast
  have nx: "normalize_num x = Fin m d" using x n by simp
  consider (z) "m = 0" | (neg) "m < 0" | (pos) "0 < m" by linarith
  then show ?thesis
  proof cases
    case z
    then have d: "d = 0" using nf by simp
    have nd: "r = [] \<or> \<not> is_digit (hd r)" using assms(2) by (rule delim_not_digit)
    have "parse_unsigned (''0'' @ r) = Some ((nat_of_digits (''0'' @ []), 0 - int (length ([]::string))), r)"
      using assms(2)
      by (intro parse_unsigned_parts [OF _ _ _ nd parse_fraction_delim parse_exponent_delim])
        simp_all
    then have "parse_unsigned (CHR ''0'' # r) = Some ((0, 0), r)"
      by (simp add: nat_of_digits_Cons)
    then show ?thesis using z d nx
      by (simp add: num_to_string_def parse_number_def mk_fin_zero_exp)
  next
    case neg
    define a where "a = nat (- m)"
    have a: "0 < a" "int a = - m" using neg by (simp_all add: a_def)
    have "a mod 10 = 0 \<longleftrightarrow> m mod 10 = 0"
    proof -
      have "int (a mod 10) = (- m) mod 10" using a(2) by (simp add: zmod_int)
      then show ?thesis using neg_mod10 [of a] a(2)
        by (metis int_ops(1) of_nat_eq_iff minus_minus of_nat_mod of_nat_numeral)
    qed
    then have nfa: "d = 0 \<or> a mod 10 \<noteq> 0" using nf by simp
    obtain M E where p: "parse_unsigned (pos_to_string a d @ r) = Some ((M, E), r)"
      and f: "mk_fin (- int M) E = Fin (- int a) d"
      using parse_unsigned_pos [OF a(1) nfa assms(2)] by blast
    have "num_to_string x = CHR ''-'' # pos_to_string a d"
      using nx neg by (simp add: num_to_string_def a_def)
    then show ?thesis using p f a(2) nx by (simp add: parse_number_def)
  next
    case pos
    define a where "a = nat m"
    have a: "0 < a" "int a = m" using pos by (simp_all add: a_def)
    have "a mod 10 = 0 \<longleftrightarrow> m mod 10 = 0"
      using a(2) by (metis of_nat_0 of_nat_eq_iff of_nat_mod of_nat_numeral)
    then have nfa: "d = 0 \<or> a mod 10 \<noteq> 0" using nf by simp
    obtain M E where p: "parse_unsigned (pos_to_string a d @ r) = Some ((M, E), r)"
      and f: "mk_fin (int M) E = Fin (int a) d"
      using parse_unsigned_pos [OF a(1) nfa assms(2)] by blast
    have s: "num_to_string x = pos_to_string a d"
      using nx pos by (simp add: num_to_string_def a_def)
    obtain c cs where ccs: "pos_to_string a d @ r = c # cs" and cd: "is_digit c"
      using parse_unsigned_hd [OF p] by (cases "pos_to_string a d @ r") auto
    then have "c \<noteq> CHR ''-''" by auto
    then have "parse_number (c # cs) = Some (mk_fin (int M) E, r)"
      using p ccs by (simp add: parse_number_def)
    then show ?thesis using s ccs f a(2) nx by simp
  qed
qed

lemma num_to_string_hd:
  assumes "is_finite x"
  shows "\<exists>c cs. num_to_string x = c # cs \<and> (c = CHR ''-'' \<or> is_digit c)"
proof -
  have d: "delim []" by (simp add: delim_def)
  have p: "parse_number (num_to_string x @ []) = Some (normalize_num x, [])"
    using assms d by (rule parse_number_roundtrip)
  then obtain c cs where ccs: "num_to_string x = c # cs"
    by (cases "num_to_string x") (auto simp: parse_number_def)
  show ?thesis
  proof (cases "c = CHR ''-''")
    case True
    then show ?thesis using ccs by simp
  next
    case False
    then obtain y where "parse_unsigned (c # cs) = Some y"
      using p ccs by (auto simp: parse_number_def split: option.splits)
    then have "is_digit c" using parse_unsigned_hd by fastforce
    then show ?thesis using ccs by simp
  qed
qed

lemma below_sixteen: "(k::nat) < 16 \<Longrightarrow> k \<in> {0,1,2,3,4,5,6,7,8,9,10,11,12,13,14,15}"
  by (simp only: insert_iff empty_iff) presburger

lemma hex_char_props: "is_hex (hex_char n) \<and> hex_val (hex_char n) = n mod 16"
proof -
  have "n mod 16 < 16" by simp
  then have "n mod 16 \<in> {0,1,2,3,4,5,6,7,8,9,10,11,12,13,14,15}" by (rule below_sixteen)
  then show ?thesis
    unfolding hex_char_def is_hex_def hex_val_def Let_def by (elim insertE; simp)
qed

lemma hex_zero: "is_hex CHR ''0'' \<and> hex_val CHR ''0'' = 0"
  by (simp add: is_hex_def hex_val_def)

lemma parse_string_quote_char:
  "parse_string (quote_char c @ q) =
     (case parse_string q of None \<Rightarrow> None | Some (s, r) \<Rightarrow> Some (c # s, r))"
proof -
  consider (short) "c \<in> {CHR 0x22, CHR 0x5C, CHR 0x08, CHR 0x0C, CHR 0x0A, CHR 0x0D, CHR 0x09}"
    | (ctl) "c \<notin> {CHR 0x22, CHR 0x5C, CHR 0x08, CHR 0x0C, CHR 0x0A, CHR 0x0D, CHR 0x09}"
        "(of_char c :: nat) < 32"
    | (plain) "c \<notin> {CHR 0x22, CHR 0x5C, CHR 0x08, CHR 0x0C, CHR 0x0A, CHR 0x0D, CHR 0x09}"
        "\<not> (of_char c :: nat) < 32"
    by blast
  then show ?thesis
  proof cases
    case short
    then show ?thesis
      by (elim insertE; simp add: quote_char_def unescape_def split: option.splits)
  next
    case ctl
    define n where "n = (of_char c :: nat)"
    have n: "n < 32" using ctl(2) by (simp add: n_def)
    have q: "quote_char c = [CHR 0x5C, CHR ''u'', CHR ''0'', CHR ''0'', hex_char (n div 16), hex_char (n mod 16)]"
      using ctl by (simp add: quote_char_def n_def)
    have "n div 16 < 16" using n by simp
    then have "n div 16 mod 16 = n div 16" by simp
    then have "16 * (n div 16 mod 16) + n mod 16 mod 16 = n" by simp
    then have "char_of (16 * hex_val (hex_char (n div 16)) + hex_val (hex_char (n mod 16))) = c"
      by (simp only: hex_char_props n_def char_of_char)
    then show ?thesis
      unfolding q using hex_char_props hex_zero
      by (simp split: option.splits)
  next
    case plain
    then show ?thesis
      by (simp add: quote_char_def split: option.splits)
  qed
qed

lemma parse_string_end: "parse_string (CHR 0x22 # r) = Some ([], r)"
  by simp

lemma parse_string_body:
  "parse_string (concat (map quote_char s) @ CHR 0x22 # r) = Some (s, r)"
  by (induction s)
    (simp_all add: parse_string_quote_char parse_string_end del: parse_string.simps(2))

lemma parse_string_quoted:
  "\<exists>b. quote_string s @ r = CHR 0x22 # b \<and> parse_string b = Some (s, r)"
  by (simp add: quote_string_def parse_string_body)

lemma skip_ws_nows: "\<not> is_ws c \<Longrightarrow> skip_ws (c # s) = c # s"
  by (simp add: skip_ws_def)

lemma digit_not_special:
  "is_digit c \<Longrightarrow> \<not> is_ws c \<and> c \<noteq> CHR ''{'' \<and> c \<noteq> CHR ''['' \<and> c \<noteq> CHR 0x22
     \<and> c \<noteq> CHR '']'' \<and> c \<noteq> CHR ''}''"
  by (auto simp: is_digit_def is_ws_def)

lemma stringify_hd: "\<exists>c cs. JSON_stringify v = c # cs \<and> starter c"
proof (cases v)
  case (JNum x)
  show ?thesis
  proof (cases "is_finite x")
    case True
    then obtain c cs where "num_to_string x = c # cs" "c = CHR ''-'' \<or> is_digit c"
      using num_to_string_hd by blast
    then show ?thesis using JNum True digit_not_special [of c]
      by (auto simp: starter_def is_ws_def)
  next
    case False
    then show ?thesis using JNum by (simp add: starter_def is_ws_def)
  qed
qed (auto simp: starter_def is_ws_def quote_string_def)

lemma stringify_elems_hd: "xs \<noteq> [] \<Longrightarrow> \<exists>c cs. stringify_elems xs = c # cs \<and> starter c"
proof (cases xs)
  case (Cons x ys)
  obtain c cs where "JSON_stringify x = c # cs" "starter c" using stringify_hd by blast
  then show ?thesis using Cons by (cases ys) auto
qed simp

lemma stringify_members_hd:
  "kvs \<noteq> [] \<Longrightarrow> \<exists>cs. stringify_members kvs = CHR 0x22 # cs"
proof (cases kvs)
  case (Cons kv ys)
  then show ?thesis by (cases kv; cases ys) (auto simp: quote_string_def)
qed simp

lemma parse_json_scalar:
  assumes "delim r"
  shows "parse_json (Suc f) (JSON_stringify JNull @ r) = Some (JNull, r)"
    and "parse_json (Suc f) (JSON_stringify (JBool b) @ r) = Some (JBool b, r)"
    and "parse_json (Suc f) (JSON_stringify (JStr s) @ r) = Some (JStr s, r)"
proof -
  show "parse_json (Suc f) (JSON_stringify JNull @ r) = Some (JNull, r)"
    by (simp add: skip_ws_def is_ws_def is_digit_def parse_literal_def)
  show "parse_json (Suc f) (JSON_stringify (JBool b) @ r) = Some (JBool b, r)"
    by (simp add: skip_ws_def is_ws_def is_digit_def parse_literal_def)
  show "parse_json (Suc f) (JSON_stringify (JStr s) @ r) = Some (JStr s, r)"
    by (simp add: skip_ws_def is_ws_def quote_string_def parse_string_body
        del: parse_string.simps)
qed

lemma parse_json_num:
  assumes "delim r"
  shows "parse_json (Suc f) (JSON_stringify (JNum x) @ r) = Some (printed (JNum x), r)"
proof (cases "is_finite x")
  case True
  obtain c cs where ccs: "num_to_string x = c # cs" and c: "c = CHR ''-'' \<or> is_digit c"
    using num_to_string_hd [OF True] by blast
  have p: "parse_number (c # cs @ r) = Some (normalize_num x, r)"
    using parse_number_roundtrip [OF True assms] ccs by simp
  have nw: "\<not> is_ws c" "c \<noteq> CHR ''{''" "c \<noteq> CHR ''[''" "c \<noteq> CHR 0x22"
    using c digit_not_special [of c] by (auto simp: is_ws_def)
  show ?thesis using True ccs p nw c by (simp add: skip_ws_nows)
next
  case False
  then show ?thesis
    by (simp add: skip_ws_def is_ws_def is_digit_def parse_literal_def)
qed

lemma delim_cons [simp]: "delim (CHR '','' # r)" "delim (CHR '']'' # r)" "delim (CHR ''}'' # r)"
  by (simp_all add: delim_def)

lemma not_ws_punct [simp]:
  "\<not> is_ws CHR ''[''" "\<not> is_ws CHR ''{''" "\<not> is_ws CHR '']''" "\<not> is_ws CHR ''}''"
  "\<not> is_ws CHR '',''" "\<not> is_ws CHR '':''" "\<not> is_ws CHR 0x22"
  by (simp_all add: is_ws_def)

lemma parse_json_array:
  assumes "\<And>r. xs \<noteq> [] \<Longrightarrow> parse_elems f (stringify_elems xs @ CHR '']'' # r) = Some (printed_list xs, r)"
  shows "parse_json (Suc f) (JSON_stringify (JArr xs) @ r) = Some (printed (JArr xs), r)"
proof (cases "xs = []")
  case True
  then show ?thesis by (simp add: skip_ws_nows)
next
  case False
  obtain c cs where ccs: "stringify_elems xs = c # cs" and st: "starter c"
    using stringify_elems_hd [OF False] by blast
  have "parse_elems f (c # cs @ CHR '']'' # r) = Some (printed_list xs, r)"
    using assms [OF False, of r] ccs by simp
  then show ?thesis using ccs st by (simp add: skip_ws_nows starter_def)
qed

lemma parse_json_object:
  assumes "\<And>r. kvs \<noteq> [] \<Longrightarrow> parse_members f (stringify_members kvs @ CHR ''}'' # r) = Some (printed_members kvs, r)"
  shows "parse_json (Suc f) (JSON_stringify (JObj kvs) @ r) = Some (printed (JObj kvs), r)"
proof (cases "kvs = []")
  case True
  then show ?thesis by (simp add: skip_ws_nows)
next
  case False
  obtain cs where ccs: "stringify_members kvs = CHR 0x22 # cs"
    using stringify_members_hd [OF False] by blast
  have "parse_members f (CHR 0x22 # cs @ CHR ''}'' # r) = Some (printed_members kvs, r)"
    using assms [OF False, of r] ccs by simp
  then show ?thesis using ccs by (simp add: skip_ws_nows)
qed

lemma parse_elems_step:
  assumes "parse_json f (JSON_stringify x @ q) = Some (printed x, q)"
    and "q = CHR '']'' # r \<and> res = [printed x]
       \<or> (\<exists>q'. q = CHR '','' # q' \<and> (\<exists>ys. parse_elems f q' = Some (ys, r) \<and> res = printed x # ys))"
  shows "parse_elems (Suc f) (JSON_stringify x @ q) = Some (res, r)"
  using assms by (auto simp: skip_ws_nows)

lemma parse_members_step:
  assumes "parse_json f (JSON_stringify v @ q) = Some (printed v, q)"
    and "q = CHR ''}'' # r \<and> res = [(k, printed v)]
       \<or> (\<exists>q'. q = CHR '','' # q' \<and> (\<exists>ys. parse_members f q' = Some (ys, r) \<and> res = (k, printed v) # ys))"
  shows "parse_members (Suc f) (quote_string k @ CHR '':'' # JSON_stringify v @ q) = Some (res, r)"
proof -
  have "parse_string (concat (map quote_char k) @ CHR 0x22 # CHR '':'' # JSON_stringify v @ q)
        = Some (k, CHR '':'' # JSON_stringify v @ q)"
    by (rule parse_string_body)
  then show ?thesis using assms
    by (auto simp: skip_ws_nows quote_string_def simp del: parse_string.simps)
qed

lemma parse_roundtrip_all:
  "(\<forall>f r. fuel_json v \<le> f \<longrightarrow> delim r \<longrightarrow>
       parse_json f (JSON_stringify v @ r) = Some (printed v, r))"
  "(\<forall>f r. xs \<noteq> [] \<longrightarrow> fuel_elems xs \<le> f \<longrightarrow>
       parse_elems f (stringify_elems xs @ CHR '']'' # r) = Some (printed_list xs, r))"
  "(\<forall>f r. kvs \<noteq> [] \<longrightarrow> fuel_members kvs \<le> f \<longrightarrow>
       parse_members f (stringify_members kvs @ CHR ''}'' # r) = Some (printed_members kvs, r))"
proof (induction v and xs and kvs rule: JSON_stringify_stringify_elems_stringify_members.induct)
  case 1
  show ?case
  proof (intro allI impI)
    fix f r assume "fuel_json JNull \<le> f" "delim r"
    then obtain f' where "f = Suc f'" by (cases f) auto
    then show "parse_json f (JSON_stringify JNull @ r) = Some (printed JNull, r)"
      using parse_json_scalar(1) [OF \<open>delim r\<close>] by simp
  qed
next
  case (2 b)
  show ?case
  proof (intro allI impI)
    fix f r assume "fuel_json (JBool b) \<le> f" "delim r"
    then obtain f' where "f = Suc f'" by (cases f) auto
    then show "parse_json f (JSON_stringify (JBool b) @ r) = Some (printed (JBool b), r)"
      using parse_json_scalar(2) [OF \<open>delim r\<close>] by simp
  qed
next
  case (3 x)
  show ?case
  proof (intro allI impI)
    fix f r assume "fuel_json (JNum x) \<le> f" "delim r"
    then obtain f' where "f = Suc f'" by (cases f) auto
    then show "parse_json f (JSON_stringify (JNum x) @ r) = Some (printed (JNum x), r)"
      using parse_json_num [OF \<open>delim r\<close>] by simp
  qed
next
  case (4 s)
  show ?case
  proof (intro allI impI)
    fix f r assume "fuel_json (JStr s) \<le> f" "delim r"
    then obtain f' where "f = Suc f'" by (cases f) auto
    then show "parse_json f (JSON_stringify (JStr s) @ r) = Some (printed (JStr s), r)"
      using parse_json_scalar(3) [OF \<open>delim r\<close>] by simp
  qed
next
  case (5 xs)
  show ?case
  proof (intro allI impI)
    fix f r assume fu: "fuel_json (JArr xs) \<le> f" and "delim r"
    then obtain f' where f: "f = Suc f'" and f': "fuel_elems xs \<le> f'" by (cases f) auto
    show "parse_json f (JSON_stringify (JArr xs) @ r) = Some (printed (JArr xs), r)"
      unfolding f using 5 f' by (intro parse_json_array) blast
  qed
next
  case (6 kvs)
  show ?case
  proof (intro allI impI)
    fix f r assume fu: "fuel_json (JObj kvs) \<le> f" and "delim r"
    then obtain f' where f: "f = Suc f'" and f': "fuel_members kvs \<le> f'" by (cases f) auto
    show "parse_json f (JSON_stringify (JObj kvs) @ r) = Some (printed (JObj kvs), r)"
      unfolding f using 6 f' by (intro parse_json_object) blast
  qed
next
  case 7
  show ?case by simp
next
  case (8 x)
  show ?case
  proof (intro allI impI)
    fix f r assume fu: "fuel_elems [x] \<le> f"
    then obtain f' where f: "f = Suc f'" and f': "fuel_json x \<le> f'" by (cases f) auto
    have "parse_json f' (JSON_stringify x @ CHR '']'' # r) = Some (printed x, CHR '']'' # r)"
      using 8 f' by simp
    then have "parse_elems (Suc f') (JSON_stringify x @ CHR '']'' # r) = Some ([printed x], r)"
      by (rule parse_elems_step) simp
    then show "parse_elems f (stringify_elems [x] @ CHR '']'' # r) = Some (printed_list [x], r)"
      using f by simp
  qed
next
  case (9 x y ys)
  show ?case
  proof (intro allI impI)
    fix f r assume fu: "fuel_elems (x # y # ys) \<le> f"
    then obtain f' where f: "f = Suc f'" and f1: "fuel_json x \<le> f'"
      and f2: "fuel_elems (y # ys) \<le> f'" by (cases f) auto
    let ?q = "CHR '','' # stringify_elems (y # ys) @ CHR '']'' # r"
    have a: "parse_json f' (JSON_stringify x @ ?q) = Some (printed x, ?q)"
      using 9(1) f1 by simp
    have b: "parse_elems f' (stringify_elems (y # ys) @ CHR '']'' # r) = Some (printed_list (y # ys), r)"
      using 9(2) f2 by blast
    have "parse_elems (Suc f') (JSON_stringify x @ ?q) = Some (printed x # printed_list (y # ys), r)"
      using a by (rule parse_elems_step) (use b in simp)
    then show "parse_elems f (stringify_elems (x # y # ys) @ CHR '']'' # r)
               = Some (printed_list (x # y # ys), r)"
      using f by simp
  qed
next
  case 10
  show ?case by simp
next
  case (11 k v)
  show ?case
  proof (intro allI impI)
    fix f r assume fu: "fuel_members [(k, v)] \<le> f"
    then obtain f' where f: "f = Suc f'" and f': "fuel_json v \<le> f'" by (cases f) auto
    have "parse_json f' (JSON_stringify v @ CHR ''}'' # r) = Some (printed v, CHR ''}'' # r)"
      using 11 f' by simp
    then have "parse_members (Suc f') (quote_string k @ CHR '':'' # JSON_stringify v @ CHR ''}'' # r)
               = Some ([(k, printed v)], r)"
      by (rule parse_members_step) simp
    then show "parse_members f (stringify_members [(k, v)] @ CHR ''}'' # r)
               = Some (printed_members [(k, v)], r)"
      using f by simp
  qed
next
  case (12 k v kv kvs)
  show ?case
  proof (intro allI impI)
    fix f r assume fu: "fuel_members ((k, v) # kv # kvs) \<le> f"
    then obtain f' where f: "f = Suc f'" and f1: "fuel_json v \<le> f'"
      and f2: "fuel_members (kv # kvs) \<le> f'" by (cases f) auto
    let ?q = "CHR '','' # stringify_members (kv # kvs) @ CHR ''}'' # r"
    have a: "parse_json f' (JSON_stringify v @ ?q) = Some (printed v, ?q)"
      using 12(1) f1 by simp
    have b: "parse_members f' (stringify_members (kv # kvs) @ CHR ''}'' # r)
             = Some (printed_members (kv # kvs), r)"
      using 12(2) f2 by blast
    have "parse_members (Suc f') (quote_string k @ CHR '':'' # JSON_stringify v @ ?q)
          = Some ((k, printed v) # printed_members (kv # kvs), r)"
      using a by (rule parse_members_step) (use b in simp)
    then show "parse_members f (stringify_members ((k, v) # kv # kvs) @ CHR ''}'' # r)
               = Some (printed_members ((k, v) # kv # kvs), r)"
      using f by simp
  qed
qed

lemma stringify_nonempty [simp]: "JSON_stringify v \<noteq> []"
  using stringify_hd [of v] by auto

lemma fuel_bound_all:
  "fuel_json v \<le> 2 * length (JSON_stringify v)"
  "fuel_elems xs \<le> 2 * length (stringify_elems xs) + 1"
  "fuel_members kvs \<le> 2 * length (stringify_members kvs) + 1"
proof (induction v and xs and kvs rule: JSON_stringify_stringify_elems_stringify_members.induct)
  case (3 x)
  have "JSON_stringify (JNum x) \<noteq> []" by (rule stringify_nonempty)
  then have "1 \<le> length (JSON_stringify (JNum x))"
    by (cases "JSON_stringify (JNum x)") simp_all
  then show ?case by (simp del: JSON_stringify.simps)
next
  case (4 s)
  then show ?case by (simp add: quote_string_def)
qed auto

lemma parse_raw_stringify: "JSON_parse_raw (JSON_stringify v) = Some (printed v)"
proof -
  have "fuel_json v \<le> 2 * length (JSON_stringify v) + 2" using fuel_bound_all(1) [of v] by simp
  moreover have "delim []" by (simp add: delim_def)
  ultimately have "parse_json (2 * length (JSON_stringify v) + 2) (JSON_stringify v @ [])
                   = Some (printed v, [])"
    using parse_roundtrip_all(1) by blast
  then show ?thesis by (simp add: JSON_parse_raw_def skip_ws_def)
qed

lemma jsonify_printed_all:
  "jsonify (printed v) = jsonify v"
  "jsonify_list (printed_list xs) = jsonify_list xs"
  "jsonify_members (printed_members kvs) acc = jsonify_members kvs acc"
  by (induction v and xs and kvs acc rule: jsonify_jsonify_list_jsonify_members.induct) auto

lemma JSON_parse_stringify: "JSON_parse (JSON_stringify v) = Some (jsonify v)"
  by (simp add: JSON_parse_def parse_raw_stringify jsonify_printed_all)

lemma map_fst_obj_set:
  "map fst (obj_set k v kvs) = (if k \<in> fst ` set kvs then map fst kvs else map fst kvs @ [k])"
  by (induction kvs) (auto simp: rev_image_eqI)

lemma distinct_obj_set: "distinct (map fst kvs) \<Longrightarrow> distinct (map fst (obj_set k v kvs))"
  by (simp add: map_fst_obj_set)

lemma canon_members_obj_set:
  "canon_members kvs \<Longrightarrow> canon v \<Longrightarrow> canon_members (obj_set k v kvs)"
  by (induction kvs) auto

lemma canon_jsonify_all:
  "canon (jsonify v)"
  "canon_list (jsonify_list xs)"
  "distinct (map fst acc) \<longrightarrow> canon_members acc \<longrightarrow>
     distinct (map fst (jsonify_members kvs acc)) \<and> canon_members (jsonify_members kvs acc)"
  by (induction v and xs and kvs acc rule: jsonify_jsonify_list_jsonify_members.induct)
    (auto simp: distinct_obj_set canon_members_obj_set)

lemma obj_set_fresh: "k \<notin> fst ` set kvs \<Longrightarrow> obj_set k v kvs = kvs @ [(k, v)]"
  by (induction kvs) auto

lemma jsonify_canon_all:
  "canon v \<longrightarrow> jsonify v = v"
  "canon_list xs \<longrightarrow> jsonify_list xs = xs"
  "canon_members kvs \<longrightarrow> distinct (map fst kvs) \<longrightarrow> fst ` set kvs \<inter> fst ` set acc = {} \<longrightarrow>
     jsonify_members kvs acc = acc @ kvs"
proof (induction v and xs and kvs acc rule: jsonify_jsonify_list_jsonify_members.induct)
  case (10 k v kvs acc)
  show ?case
  proof (intro impI)
    assume c: "canon_members ((k, v) # kvs)" and d: "distinct (map fst ((k, v) # kvs))"
      and i: "fst ` set ((k, v) # kvs) \<inter> fst ` set acc = {}"
    have jv: "jsonify v = v" using 10(1) c by simp
    have fresh: "k \<notin> fst ` set acc" using i by auto
    have os: "obj_set k (jsonify v) acc = acc @ [(k, v)]" using jv fresh by (simp add: obj_set_fresh)
    have "fst ` set kvs \<inter> fst ` set (acc @ [(k, v)]) = {}" using i d by auto
    then have "jsonify_members kvs (acc @ [(k, v)]) = (acc @ [(k, v)]) @ kvs"
      using 10(2) c d os by simp
    then show "jsonify_members ((k, v) # kvs) acc = acc @ (k, v) # kvs" using os by simp
  qed
qed auto

lemma jsonify_canon: "canon v \<Longrightarrow> jsonify v = v"
  using jsonify_canon_all(1) by blast

lemma canon_jsonify: "canon (jsonify v)"
  by (rule canon_jsonify_all(1))

lemma jsonify_idem: "jsonify (jsonify v) = jsonify v"
  by (simp add: jsonify_canon canon_jsonify)

lemma canon_JSON_parse: "JSON_parse s = Some v \<Longrightarrow> canon v"
  by (auto simp: JSON_parse_def canon_jsonify)

lemma JSON_parse_stringify_canon: "canon v \<Longrightarrow> JSON_parse (JSON_stringify v) = Some v"
  by (simp add: JSON_parse_stringify jsonify_canon)

lemma getStoredData_saveData [simp]: "getStoredData (saveData d st) = jsonify d"
  by (simp add: getStoredData_def saveData_def JSON_parse_stringify)

lemma canon_default_data [simp]: "canon default_data"
  by (simp add: default_data_def)

lemma canon_getStoredData [simp]: "canon (getStoredData st)"
  by (auto simp: getStoredData_def canon_JSON_parse split: option.splits)

lemma getStoredData_saveData_canon: "canon d \<Longrightarrow> getStoredData (saveData d st) = d"
  by (simp add: jsonify_canon)

lemma canon_list_iff: "canon_list xs \<longleftrightarrow> (\<forall>x \<in> set xs. canon x)"
  by (induction xs) auto

lemma canon_members_iff: "canon_members kvs \<longleftrightarrow> (\<forall>(k, v) \<in> set kvs. canon v)"
  by (induction kvs) auto

lemma canon_map_of: "canon_members kvs \<Longrightarrow> map_of kvs k = Some v \<Longrightarrow> canon v"
  by (auto simp: canon_members_iff dest: map_of_SomeD)

lemma map_of_obj_set: "map_of (obj_set k v kvs) k' = (if k' = k then Some v else map_of kvs k')"
  by (induction kvs) auto

lemma canon_obj_set:
  "canon (JObj kvs) \<Longrightarrow> canon v \<Longrightarrow> canon (JObj (obj_set k v kvs))"
  by (simp add: distinct_obj_set canon_members_obj_set)

lemma get_prop_Some_obj:
  "get_prop d k = Inr (Some v) \<Longrightarrow> \<exists>kvs. d = JObj kvs \<and> map_of kvs k = Some v"
  by (cases d) auto

lemma filterE_total:
  assumes "\<forall>e \<in> set es. p e = Inr (q e)"
  shows "filterE p es = Inr (filter q es)"
  using assms by (induction es) auto

lemma get_prop_field: "e \<noteq> JNull \<Longrightarrow> get_prop e k = Inr (field e k)"
  by (cases e) (auto simp: field_def)

lemma expense_list_obj:
  assumes "expense_list st es"
  obtains kvs where "getStoredData st = JObj kvs" "map_of kvs ''expenses'' = Some (JArr es)"
    "canon (JObj kvs)" "canon_list es"
proof -
  obtain kvs where k: "getStoredData st = JObj kvs" "map_of kvs ''expenses'' = Some (JArr es)"
    using assms get_prop_Some_obj unfolding expense_list_def by blast
  have c: "canon (JObj kvs)" using canon_getStoredData [of st] k by simp
  have "canon_members kvs" using c by simp
  then have "canon (JArr es)" using k(2) by (rule canon_map_of)
  then show ?thesis using that k c by simp
qed


text \<open>Replacing the expense list of a well-formed state.\<close>

lemma save_expenses:
  assumes "getStoredData st = JObj kvs" and "canon (JObj kvs)" and "canon_list es'"
  shows "getStoredData (saveData (JObj (obj_set ''expenses'' (JArr es') kvs)) st)
         = JObj (obj_set ''expenses'' (JArr es') kvs)"
  using assms by (intro getStoredData_saveData_canon canon_obj_set) simp_all

lemma deleteExpense_result:
  assumes "expense_list st es"
  shows "\<exists>kvs. getStoredData st = JObj kvs
     \<and> deleteExpense i st
        = Inr (saveData (JObj (obj_set ''expenses''
                 (JArr (filter (\<lambda>e. \<not> strict_eq (field e ''id'') (Some i)) es)) kvs)) st)
     \<and> getStoredData (saveData (JObj (obj_set ''expenses''
                 (JArr (filter (\<lambda>e. \<not> strict_eq (field e ''id'') (Some i)) es)) kvs)) st)
        = JObj (obj_set ''expenses''
                 (JArr (filter (\<lambda>e. \<not> strict_eq (field e ''id'') (Some i)) es)) kvs)"
proof -
  let ?q = "\<lambda>e. \<not> strict_eq (field e ''id'') (Some i)"
  obtain kvs where k: "getStoredData st = JObj kvs" "map_of kvs ''expenses'' = Some (JArr es)"
    "canon (JObj kvs)" "canon_list es"
    using assms by (rule expense_list_obj)
  have nn: "JNull \<notin> set es" using assms by (simp add: expense_list_def)
  have f: "filterE (\<lambda>expense. case get_prop expense ''id'' of Inl e \<Rightarrow> Inl e
                               | Inr idv \<Rightarrow> Inr (\<not> strict_eq idv (Some i))) es
           = Inr (filter ?q es)"
  proof (rule filterE_total, rule ballI)
    fix e assume "e \<in> set es"
    then have "e \<noteq> JNull" using nn by auto
    then show "(case get_prop e ''id'' of Inl e \<Rightarrow> Inl e
                | Inr idv \<Rightarrow> Inr (\<not> strict_eq idv (Some i))) = Inr (?q e)"
      by (simp add: get_prop_field)
  qed
  have d: "deleteExpense i st = Inr (saveData (JObj (obj_set ''expenses'' (JArr (filter ?q es)) kvs)) st)"
    using k(1,2) f by (simp add: deleteExpense_def)
  have "canon_list (filter ?q es)" using k(4) by (simp add: canon_list_iff)
  then have "getStoredData (saveData (JObj (obj_set ''expenses'' (JArr (filter ?q es)) kvs)) st)
             = JObj (obj_set ''expenses'' (JArr (filter ?q es)) kvs)"
    using k(1,3) by (intro save_expenses)
  then show ?thesis using k(1) d by blast
qed

section \<open>Theorems on navigation\<close>










text \<open>
  C10. On a state with an expense list, \<open>deleteExpense(id)\<close> returns, the stored list is
  the old one without the expenses whose \<open>id\<close> is strictly equal to the argument (all of
  them), in the old order; every other property of the root record (categories, income,
  limits) reads as before; when no expense matches the list is the same; and a second
  call with the same id leaves the persisted text as it is.
\<close>

theorem deleteExpense_frame:
  assumes "expense_list st es"
  shows "\<exists>st'. deleteExpense i st = Inr st'
     \<and> expense_list st' (filter (\<lambda>e. \<not> strict_eq (field e ''id'') (Some i)) es)
     \<and> (\<forall>k. k \<noteq> ''expenses'' \<longrightarrow>
           get_prop (getStoredData st') k = get_prop (getStoredData st) k)
     \<and> ((\<forall>e \<in> set es. \<not> strict_eq (field e ''id'') (Some i)) \<longrightarrow> expense_list st' es)
     \<and> deleteExpense i st' = Inr st'"
proof -
  let ?q = "\<lambda>e. \<not> strict_eq (field e ''id'') (Some i)"
  obtain kvs where k: "getStoredData st = JObj kvs"
    and d: "deleteExpense i st = Inr (saveData (JObj (obj_set ''expenses'' (JArr (filter ?q es)) kvs)) st)"
    and g: "getStoredData (saveData (JObj (obj_set ''expenses'' (JArr (filter ?q es)) kvs)) st)
             = JObj (obj_set ''expenses'' (JArr (filter ?q es)) kvs)"
    using deleteExpense_result [OF assms, of i] by blast
  define st' where "st' = saveData (JObj (obj_set ''expenses'' (JArr (filter ?q es)) kvs)) st"
  have nn: "JNull \<notin> set es" using assms by (simp add: expense_list_def)
  have g': "getStoredData st' = JObj (obj_set ''expenses'' (JArr (filter ?q es)) kvs)"
    using g by (simp add: st'_def)
  have el: "expense_list st' (filter ?q es)"
    using g' nn by (simp add: expense_list_def map_of_obj_set)
  have fr: "\<forall>k. k \<noteq> ''expenses'' \<longrightarrow> get_prop (getStoredData st') k = get_prop (getStoredData st) k"
    using g' k by (simp add: map_of_obj_set)
  have same: "(\<forall>e \<in> set es. ?q e) \<longrightarrow> expense_list st' es"
  proof
    assume "\<forall>e \<in> set es. ?q e"
    then have "filter ?q es = es" by (simp add: filter_id_conv)
    then show "expense_list st' es" using el by simp
  qed
  have again: "deleteExpense i st' = Inr st'"
  proof -
    obtain kvs' where k': "getStoredData st' = JObj kvs'"
      and d': "deleteExpense i st' = Inr (saveData (JObj (obj_set ''expenses''
                 (JArr (filter ?q (filter ?q es))) kvs')) st')"
      using deleteExpense_result [OF el, of i] by blast
    have kv: "kvs' = obj_set ''expenses'' (JArr (filter ?q es)) kvs" using g' k' by simp
    have "obj_set ''expenses'' (JArr (filter ?q es)) kvs' = kvs'"
      unfolding kv by (induction kvs) auto
    then show ?thesis using d' kv by (simp add: st'_def saveData_def)
  qed
  show ?thesis using d el fr same again unfolding st'_def by blast
qed

text \<open>A run on three expenses, two of which share the id.\<close>

theorem deleteExpense_frame_witness:
  "expense_list
     (store_of [expense ''17'' ''2024-03-05'' ''Food'' 50, expense ''18'' ''2024-03-06'' ''Rent'' 30,
                expense ''17'' ''2024-03-07'' ''Food'' 20] [''Food''] [(''2024-03'', JNum (Fin 1000 0))])
     [expense ''17'' ''2024-03-05'' ''Food'' 50, expense ''18'' ''2024-03-06'' ''Rent'' 30,
      expense ''17'' ''2024-03-07'' ''Food'' 20]
   \<and> (\<exists>st'. deleteExpense (JStr ''17'')
           (store_of [expense ''17'' ''2024-03-05'' ''Food'' 50, expense ''18'' ''2024-03-06'' ''Rent'' 30,
                expense ''17'' ''2024-03-07'' ''Food'' 20] [''Food''] [(''2024-03'', JNum (Fin 1000 0))])
           = Inr st'
         \<and> expense_list st' [expense ''18'' ''2024-03-06'' ''Rent'' 30]
         \<and> get_prop (getStoredData st') ''categories'' = Inr (Some (JArr [JStr ''Food'']))
         \<and> deleteExpense (JStr ''17'') st' = Inr st')"
proof -
  let ?es = "[expense ''17'' ''2024-03-05'' ''Food'' 50, expense ''18'' ''2024-03-06'' ''Rent'' 30,
              expense ''17'' ''2024-03-07'' ''Food'' 20]"
  let ?st = "store_of ?es [''Food''] [(''2024-03'', JNum (Fin 1000 0))]"
  have h: "expense_list ?st ?es"
    by (simp add: expense_list_def store_of_def expense_def)
  have f: "filter (\<lambda>e. \<not> strict_eq (field e ''id'') (Some (JStr ''17''))) ?es
           = [expense ''18'' ''2024-03-06'' ''Rent'' 30]"
    by (simp add: expense_def field_def)
  have c: "get_prop (getStoredData ?st) ''categories'' = Inr (Some (JArr [JStr ''Food'']))"
    by (simp add: store_of_def)
  obtain st' where d: "deleteExpense (JStr ''17'') ?st = Inr st'"
    and e: "expense_list st' (filter (\<lambda>e. \<not> strict_eq (field e ''id'') (Some (JStr ''17''))) ?es)"
    and fr: "\<forall>k. k \<noteq> ''expenses'' \<longrightarrow> get_prop (getStoredData st') k = get_prop (getStoredData ?st) k"
    and a: "deleteExpense (JStr ''17'') st' = Inr st'"
    using deleteExpense_frame [OF h, of "JStr ''17''"] by blast
  have e': "expense_list st' [expense ''18'' ''2024-03-06'' ''Rent'' 30]"
    using e unfolding f .
  have "get_prop (getStoredData st') ''categories'' = get_prop (getStoredData ?st) ''categories''"
    using fr by simp
  then have c': "get_prop (getStoredData st') ''categories'' = Inr (Some (JArr [JStr ''Food'']))"
    using c by simp
  show ?thesis
    apply (rule conjI [OF h])
    apply (rule exI [of _ st'])
    apply (intro conjI d e' c' a)
    done
qed

lemma num_to_string_normalize [simp]: "num_to_string (normalize_num x) = num_to_string x"
  by (simp add: num_to_string_def)


lemma map_fst_printed_members [simp]: "map fst (printed_members kvs) = map fst kvs"
  by (induction kvs) auto










lemma cleanupOldData_result:
  assumes "expense_list st es"
  shows "\<exists>st'. cleanupOldData P now st = Inr st'
     \<and> expense_list st'
          (filter (\<lambda>e. date_ge (expense_date P e) (twelveMonthsAgo P now)) es)"
proof -
  let ?q = "\<lambda>e. date_ge (expense_date P e) (twelveMonthsAgo P now)"
  obtain kvs where k: "getStoredData st = JObj kvs" "map_of kvs ''expenses'' = Some (JArr es)"
    "canon (JObj kvs)" "canon_list es"
    using assms by (rule expense_list_obj)
  have nn: "JNull \<notin> set es" using assms by (simp add: expense_list_def)
  have f: "filterE (\<lambda>expense. case get_prop expense ''date'' of Inl e \<Rightarrow> Inl e
                     | Inr dv \<Rightarrow> Inr (date_ge (new_Date P dv) (twelveMonthsAgo P now))) es
           = Inr (filter ?q es)"
  proof (rule filterE_total, rule ballI)
    fix e assume "e \<in> set es"
    then have "e \<noteq> JNull" using nn by auto
    then show "(case get_prop e ''date'' of Inl e \<Rightarrow> Inl e
                | Inr dv \<Rightarrow> Inr (date_ge (new_Date P dv) (twelveMonthsAgo P now))) = Inr (?q e)"
      by (simp add: get_prop_field expense_date_def)
  qed
  let ?st' = "saveData (JObj (obj_set ''expenses'' (JArr (filter ?q es)) kvs)) st"
  have d: "cleanupOldData P now st = Inr ?st'"
    using k(1,2) f by (simp add: cleanupOldData_def)
  have "canon_list (filter ?q es)" using k(4) by (simp add: canon_list_iff)
  then have "getStoredData ?st' = JObj (obj_set ''expenses'' (JArr (filter ?q es)) kvs)"
    using k(1,3) by (intro save_expenses)
  then have "expense_list ?st' (filter ?q es)"
    using nn by (simp add: expense_list_def map_of_obj_set)
  then show ?thesis using d by blast
qed



lemma sample_dates:
  "Date_parse utc_platform ''2023-03-15T12:00:00.000Z'' = Some 1678881600000"
  "Date_parse utc_platform ''2023-03-15T11:59:59.999Z'' = Some 1678881599999"
  "Date_parse utc_platform ''2024-01-01'' = Some 1704067200000"
  "Date_parse utc_platform ''long ago'' = None"
  by code_simp+

lemma expense_date_expense [simp]:
  "expense_date P (expense i d c a) = Date_parse P d"
  by (simp add: expense_date_def expense_def field_def new_Date_def)


text \<open>
  C9. The same start also removes every expense whose \<open>date\<close> is missing or does not give
  a valid Date: the comparison with the cutoff is false for an invalid Date.
\<close>

theorem cleanupOldData_invalid_date:
  assumes "expense_list st es"
  shows "\<exists>st' es'. cleanupOldData P now st = Inr st' \<and> expense_list st' es'
     \<and> (\<forall>e \<in> set es. field e ''date'' = None \<or> expense_date P e = None \<longrightarrow> e \<notin> set es')"
proof -
  let ?q = "\<lambda>e. date_ge (expense_date P e) (twelveMonthsAgo P now)"
  obtain st' where s: "cleanupOldData P now st = Inr st'" "expense_list st' (filter ?q es)"
    using cleanupOldData_result [OF assms] by blast
  have "\<forall>e \<in> set es. field e ''date'' = None \<or> expense_date P e = None \<longrightarrow> e \<notin> set (filter ?q es)"
    by (auto simp: date_ge_def expense_date_def new_Date_def)
  then show ?thesis using s by blast
qed

text \<open>An expense without a date and one whose date no parser accepts, both recent.\<close>

theorem cleanupOldData_invalid_date_witness:
  "expense_list
     (store_of [JObj [(''category'', JStr ''Food''), (''amount'', JNum (Fin 5 0)), (''id'', JStr ''1'')],
                expense ''2'' ''long ago'' ''Food'' 30] [] [])
     [JObj [(''category'', JStr ''Food''), (''amount'', JNum (Fin 5 0)), (''id'', JStr ''1'')],
      expense ''2'' ''long ago'' ''Food'' 30]
   \<and> (\<exists>st'. cleanupOldData utc_platform 1710504000000
           (store_of [JObj [(''category'', JStr ''Food''), (''amount'', JNum (Fin 5 0)), (''id'', JStr ''1'')],
                      expense ''2'' ''long ago'' ''Food'' 30] [] []) = Inr st'
         \<and> expense_list st' [])"
proof -
  let ?e1 = "JObj [(''category'', JStr ''Food''), (''amount'', JNum (Fin 5 0)), (''id'', JStr ''1'')]"
  let ?e2 = "expense ''2'' ''long ago'' ''Food'' 30"
  let ?st = "store_of [?e1, ?e2] [] []"
  have h: "expense_list ?st [?e1, ?e2]"
    by (simp add: expense_list_def store_of_def expense_def)
  obtain st' es' where i: "cleanupOldData utc_platform 1710504000000 ?st = Inr st'"
    and l: "expense_list st' es'"
    and c: "\<forall>e \<in> set [?e1, ?e2]. field e ''date'' = None \<or> expense_date utc_platform e = None
              \<longrightarrow> e \<notin> set es'"
    and sub: "True"
    using cleanupOldData_invalid_date [OF h, of utc_platform 1710504000000] by blast
  obtain st2 where i2: "cleanupOldData utc_platform 1710504000000 ?st = Inr st2"
    and l2: "expense_list st2 (filter (\<lambda>e. date_ge (expense_date utc_platform e)
                 (twelveMonthsAgo utc_platform 1710504000000)) [?e1, ?e2])"
    using cleanupOldData_result [OF h] by blast
  have st: "st2 = st'" using i i2 by simp
  have 1: "?e1 \<notin> set es'" using c [rule_format, of ?e1] by (simp add: field_def)
  have 2: "?e2 \<notin> set es'" using c [rule_format, of ?e2] by (simp add: sample_dates)
  have "es' = filter (\<lambda>e. date_ge (expense_date utc_platform e)
                 (twelveMonthsAgo utc_platform 1710504000000)) [?e1, ?e2]"
    using l l2 st by (simp add: expense_list_def)
  then have "set es' \<subseteq> {?e1, ?e2}" by auto
  then have "es' = []" using 1 2 by (cases es') auto
  then show ?thesis using h i l by blast
qed

lemma findIndexE_none:
  assumes "\<forall>e \<in> set es. p e = Inr False"
  shows "findIndexE p es = Inr None"
  using assms by (induction es) auto

lemma findIndexE_first:
  assumes "n < length es" and "p (es ! n) = Inr True" and "\<forall>m < n. p (es ! m) = Inr False"
  shows "findIndexE p es = Inr (Some n)"
  using assms
proof (induction es arbitrary: n)
  case Nil
  then show ?case by simp
next
  case (Cons e es)
  show ?case
  proof (cases n)
    case 0
    then show ?thesis using Cons.prems by simp
  next
    case (Suc n')
    have h: "p e = Inr False" using Cons.prems(3) Suc by auto
    have "findIndexE p es = Inr (Some n')"
    proof (rule Cons.IH)
      show "n' < length es" using Cons.prems(1) Suc by simp
      show "p (es ! n') = Inr True" using Cons.prems(2) Suc by simp
      show "\<forall>m < n'. p (es ! m) = Inr False"
      proof (intro allI impI)
        fix m assume "m < n'"
        then have "Suc m < n" using Suc by simp
        then have "p ((e # es) ! Suc m) = Inr False" using Cons.prems(3) by blast
        then show "p (es ! m) = Inr False" by simp
      qed
    qed
    then show ?thesis using h Suc by simp
  qed
qed

lemma assign_all_Nil [simp]: "assign_all [] acc = acc"
  by (simp add: assign_all_def)

lemma assign_all_Cons [simp]: "assign_all ((k, v) # kvs) acc = assign_all kvs (obj_set k v acc)"
  by (simp add: assign_all_def)

lemma assign_all_canon:
  "distinct (map fst acc) \<Longrightarrow> canon_members acc \<Longrightarrow> canon_members kvs \<Longrightarrow>
     distinct (map fst (assign_all kvs acc)) \<and> canon_members (assign_all kvs acc)"
proof (induction kvs arbitrary: acc)
  case Nil
  then show ?case by simp
next
  case (Cons kv kvs)
  obtain k v where kv: "kv = (k, v)" by (cases kv)
  show ?case unfolding kv assign_all_Cons
    using Cons.prems kv by (intro Cons.IH) (simp_all add: distinct_obj_set canon_members_obj_set)
qed

lemma map_of_assign_all:
  "distinct (map fst kvs) \<Longrightarrow>
     map_of (assign_all kvs acc) k = (case map_of kvs k of Some v \<Rightarrow> Some v | None \<Rightarrow> map_of acc k)"
proof (induction kvs arbitrary: acc)
  case Nil
  then show ?case by simp
next
  case (Cons kv kvs)
  obtain k' v' where kv: "kv = (k', v')" by (cases kv)
  have d: "distinct (map fst kvs)" and nk: "k' \<notin> fst ` set kvs" using Cons.prems kv by auto
  have n: "map_of kvs k' = None" using nk by (simp add: map_of_eq_None_iff)
  show ?case unfolding kv assign_all_Cons Cons.IH [OF d]
    using n by (auto simp: map_of_obj_set split: option.splits)
qed

lemma assign_all_fresh:
  "distinct (map fst kvs) \<Longrightarrow> fst ` set kvs \<inter> fst ` set acc = {} \<Longrightarrow> assign_all kvs acc = acc @ kvs"
proof (induction kvs arbitrary: acc)
  case Nil
  then show ?case by simp
next
  case (Cons kv kvs)
  obtain k v where kv: "kv = (k, v)" by (cases kv)
  have "obj_set k v acc = acc @ [(k, v)]" using Cons.prems kv by (intro obj_set_fresh) auto
  moreover have "assign_all kvs (acc @ [(k, v)]) = (acc @ [(k, v)]) @ kvs"
    using Cons.prems kv by (intro Cons.IH) auto
  ultimately show ?case unfolding kv by simp
qed

lemma field_obj [simp]: "field (JObj kvs) k = map_of kvs k"
  by (simp add: field_def)

lemma strict_eq_field_obj:
  assumes "strict_eq (field e k) (Some i)"
  shows "\<exists>kvs. e = JObj kvs"
  using assms by (cases e) (simp_all add: field_def)

lemma canon_list_update: "canon_list es \<Longrightarrow> canon v \<Longrightarrow> canon_list (es[n := v])"
  by (auto simp: canon_list_iff dest: set_update_subset_insert [THEN subsetD])

lemma updateExpense_found:
  assumes el: "expense_list st es" and patch: "canon (JObj pkvs)"
    and n: "n < length es" and hit: "strict_eq (field (es ! n) ''id'') (Some i)"
    and first: "\<forall>m < n. \<not> strict_eq (field (es ! m) ''id'') (Some i)"
  shows "\<exists>merged st'. updateExpense i (JObj pkvs) st = Inr (merged, st')
     \<and> expense_list st' (es[n := merged])
     \<and> (\<forall>k. field merged k = (case map_of pkvs k of Some v \<Rightarrow> Some v | None \<Rightarrow> field (es ! n) k))
     \<and> (\<forall>k. k \<noteq> ''expenses'' \<longrightarrow> get_prop (getStoredData st') k = get_prop (getStoredData st) k)"
proof -
  let ?p = "\<lambda>expense. case get_prop expense ''id'' of Inl e \<Rightarrow> Inl e
                        | Inr idv \<Rightarrow> Inr (strict_eq idv (Some i))"
  obtain kvs where k: "getStoredData st = JObj kvs" "map_of kvs ''expenses'' = Some (JArr es)"
    "canon (JObj kvs)" "canon_list es"
    using el by (rule expense_list_obj)
  have nn: "JNull \<notin> set es" using el by (simp add: expense_list_def)
  have pq: "?p e = Inr (strict_eq (field e ''id'') (Some i))" if "e \<in> set es" for e
  proof -
    have "e \<noteq> JNull" using that nn by auto
    then show ?thesis by (simp add: get_prop_field)
  qed
  have fi: "findIndexE ?p es = Inr (Some n)"
  proof (rule findIndexE_first [OF n])
    show "?p (es ! n) = Inr True" using pq [of "es ! n"] n hit by simp
    show "\<forall>m < n. ?p (es ! m) = Inr False"
    proof (intro allI impI)
      fix m assume mn: "m < n"
      then have "es ! m \<in> set es" using n by simp
      then have "?p (es ! m) = Inr (strict_eq (field (es ! m) ''id'') (Some i))" by (rule pq)
      then show "?p (es ! m) = Inr False" using first mn by simp
    qed
  qed
  obtain okvs where o: "es ! n = JObj okvs" using strict_eq_field_obj [OF hit] by blast
  have "es ! n \<in> set es" using n by simp
  then have "canon (es ! n)" using k(4) by (simp add: canon_list_iff)
  then have co: "canon (JObj okvs)" using o by simp
  define merged where "merged = spread2 (es ! n) (JObj pkvs)"
  have a0: "assign_all okvs [] = okvs" using co by (simp add: assign_all_fresh)
  have m: "merged = JObj (assign_all pkvs okvs)"
    by (simp add: merged_def spread2_def o a0)
  have cm: "canon merged" unfolding m using assign_all_canon [of okvs pkvs] co patch by simp
  have fm: "field merged k' = (case map_of pkvs k' of Some v \<Rightarrow> Some v | None \<Rightarrow> field (es ! n) k')" for k'
    unfolding m o using patch by (simp add: map_of_assign_all split: option.splits)
  let ?st' = "saveData (JObj (obj_set ''expenses'' (JArr (es[n := merged])) kvs)) st"
  have u: "updateExpense i (JObj pkvs) st = Inr (merged, ?st')"
    using k(1,2) fi by (simp add: updateExpense_def merged_def Let_def)
  have "canon_list (es[n := merged])" using k(4) cm by (rule canon_list_update)
  then have g: "getStoredData ?st' = JObj (obj_set ''expenses'' (JArr (es[n := merged])) kvs)"
    using k(1,3) by (intro save_expenses)
  have mn: "merged \<noteq> JNull" using m by simp
  have "JNull \<notin> set (es[n := merged])"
    using nn mn by (auto dest: set_update_subset_insert [THEN subsetD])
  then have el': "expense_list ?st' (es[n := merged])"
    using g by (simp add: expense_list_def map_of_obj_set)
  have fr: "\<forall>k'. k' \<noteq> ''expenses'' \<longrightarrow> get_prop (getStoredData ?st') k' = get_prop (getStoredData st) k'"
    using g k(1) by (simp add: map_of_obj_set)
  show ?thesis
    apply (rule exI [of _ merged])
    apply (rule exI [of _ ?st'])
    using u el' fm fr apply blast
    done
qed

lemma updateExpense_missing:
  assumes el: "expense_list st es"
    and none: "\<forall>e \<in> set es. \<not> strict_eq (field e ''id'') (Some i)"
  shows "updateExpense i patch st = Inr (JNull, st)"
proof -
  let ?p = "\<lambda>expense. case get_prop expense ''id'' of Inl e \<Rightarrow> Inl e
                        | Inr idv \<Rightarrow> Inr (strict_eq idv (Some i))"
  have nn: "JNull \<notin> set es" using el by (simp add: expense_list_def)
  have "\<forall>e \<in> set es. ?p e = Inr False"
  proof
    fix e assume e: "e \<in> set es"
    then have "e \<noteq> JNull" using nn by auto
    then show "?p e = Inr False" using none e by (simp add: get_prop_field)
  qed
  then have "findIndexE ?p es = Inr None" by (rule findIndexE_none)
  then show ?thesis using el by (simp add: updateExpense_def expense_list_def)
qed

text \<open>
  C3. On a state with an expense list and for a patch object: when no expense has the id,
  \<open>updateExpense\<close> returns \<open>null\<close> and the persisted state is the same; otherwise, for the
  first expense with the id, it returns the merged expense, in which every field of the
  patch has the patch's value and every other field the old value, stores the list
  with that one entry replaced, and leaves the other properties of the root record alone.
\<close>

theorem updateExpense_merge:
  assumes "expense_list st es" and "canon (JObj pkvs)"
  shows "((\<forall>e \<in> set es. \<not> strict_eq (field e ''id'') (Some i)) \<longrightarrow>
            updateExpense i (JObj pkvs) st = Inr (JNull, st))
     \<and> (\<forall>n. n < length es \<and> strict_eq (field (es ! n) ''id'') (Some i)
             \<and> (\<forall>m < n. \<not> strict_eq (field (es ! m) ''id'') (Some i)) \<longrightarrow>
          (\<exists>merged st'. updateExpense i (JObj pkvs) st = Inr (merged, st')
             \<and> expense_list st' (es[n := merged])
             \<and> (\<forall>k. field merged k
                      = (case map_of pkvs k of Some v \<Rightarrow> Some v | None \<Rightarrow> field (es ! n) k))
             \<and> (\<forall>k. k \<noteq> ''expenses'' \<longrightarrow>
                   get_prop (getStoredData st') k = get_prop (getStoredData st) k)))"
proof (intro conjI impI allI)
  assume "\<forall>e \<in> set es. \<not> strict_eq (field e ''id'') (Some i)"
  then show "updateExpense i (JObj pkvs) st = Inr (JNull, st)"
    using assms(1) by (intro updateExpense_missing)
next
  fix n
  assume a: "n < length es \<and> strict_eq (field (es ! n) ''id'') (Some i)
             \<and> (\<forall>m < n. \<not> strict_eq (field (es ! m) ''id'') (Some i))"
  show "\<exists>merged st'. updateExpense i (JObj pkvs) st = Inr (merged, st')
             \<and> expense_list st' (es[n := merged])
             \<and> (\<forall>k. field merged k
                      = (case map_of pkvs k of Some v \<Rightarrow> Some v | None \<Rightarrow> field (es ! n) k))
             \<and> (\<forall>k. k \<noteq> ''expenses'' \<longrightarrow>
                   get_prop (getStoredData st') k = get_prop (getStoredData st) k)"
    using a by (intro updateExpense_found [OF assms]) simp_all
qed

text \<open>
  The patch \<open>{amount: 75}\<close> on the second of two expenses, and on an id that no expense
  has.
\<close>

theorem updateExpense_merge_witness:
  "expense_list
     (store_of [expense ''17'' ''2024-03-05'' ''Food'' 50, expense ''18'' ''2024-03-06'' ''Rent'' 30]
        [] [])
     [expense ''17'' ''2024-03-05'' ''Food'' 50, expense ''18'' ''2024-03-06'' ''Rent'' 30]
   \<and> canon (JObj [(''amount'', JNum (Fin 75 0))])
   \<and> updateExpense (JStr ''99'') (JObj [(''amount'', JNum (Fin 75 0))])
        (store_of [expense ''17'' ''2024-03-05'' ''Food'' 50, expense ''18'' ''2024-03-06'' ''Rent'' 30]
           [] [])
      = Inr (JNull,
             store_of [expense ''17'' ''2024-03-05'' ''Food'' 50, expense ''18'' ''2024-03-06'' ''Rent'' 30]
               [] [])
   \<and> (\<exists>merged st'.
         updateExpense (JStr ''18'') (JObj [(''amount'', JNum (Fin 75 0))])
           (store_of [expense ''17'' ''2024-03-05'' ''Food'' 50, expense ''18'' ''2024-03-06'' ''Rent'' 30]
              [] [])
           = Inr (merged, st')
         \<and> expense_list st' [expense ''17'' ''2024-03-05'' ''Food'' 50, merged]
         \<and> field merged ''amount'' = Some (JNum (Fin 75 0))
         \<and> field merged ''category'' = Some (JStr ''Rent'')
         \<and> field merged ''date'' = Some (JStr ''2024-03-06'')
         \<and> field merged ''id'' = Some (JStr ''18''))"
proof -
  let ?e1 = "expense ''17'' ''2024-03-05'' ''Food'' 50"
  let ?e2 = "expense ''18'' ''2024-03-06'' ''Rent'' 30"
  let ?st = "store_of [?e1, ?e2] [] []"
  let ?pk = "[(''amount'', JNum (Fin 75 0))]"
  have h: "expense_list ?st [?e1, ?e2]"
    by (simp add: expense_list_def store_of_def expense_def)
  have c: "canon (JObj ?pk)" by simp
  have no: "\<forall>e \<in> set [?e1, ?e2]. \<not> strict_eq (field e ''id'') (Some (JStr ''99''))"
    by (simp add: expense_def)
  have 1: "updateExpense (JStr ''99'') (JObj ?pk) ?st = Inr (JNull, ?st)"
    by (rule updateExpense_merge [OF h c, of "JStr ''99''", THEN conjunct1, THEN mp, OF no])
  have hit: "Suc 0 < length [?e1, ?e2]
       \<and> strict_eq (field ([?e1, ?e2] ! Suc 0) ''id'') (Some (JStr ''18''))
       \<and> (\<forall>m < Suc 0. \<not> strict_eq (field ([?e1, ?e2] ! m) ''id'') (Some (JStr ''18'')))"
    by (simp add: expense_def)
  obtain merged st' where u: "updateExpense (JStr ''18'') (JObj ?pk) ?st = Inr (merged, st')"
    and l: "expense_list st' ([?e1, ?e2][Suc 0 := merged])"
    and f: "\<forall>k. field merged k
              = (case map_of ?pk k of Some v \<Rightarrow> Some v | None \<Rightarrow> field ([?e1, ?e2] ! Suc 0) k)"
    using updateExpense_merge [OF h c, of "JStr ''18''", THEN conjunct2, THEN spec, of "Suc 0",
        THEN mp, OF hit]
    by blast
  have l': "expense_list st' [?e1, merged]" using l by simp
  have f1: "field merged ''amount'' = Some (JNum (Fin 75 0))"
    using f [THEN spec, of "''amount''"] by simp
  have f2: "field merged ''category'' = Some (JStr ''Rent'')"
    using f [THEN spec, of "''category''"] by (simp add: expense_def)
  have f3: "field merged ''date'' = Some (JStr ''2024-03-06'')"
    using f [THEN spec, of "''date''"] by (simp add: expense_def)
  have f4: "field merged ''id'' = Some (JStr ''18'')"
    using f [THEN spec, of "''id''"] by (simp add: expense_def)
  show ?thesis
    apply (rule conjI [OF h])
    apply (rule conjI [OF c])
    apply (rule conjI [OF 1])
    apply (rule exI [of _ merged])
    apply (rule exI [of _ st'])
    apply (intro conjI u l' f1 f2 f3 f4)
    done
qed

lemma someE_total:
  assumes "\<forall>x \<in> set xs. p x = Inr (q x)"
  shows "someE p xs = Inr (\<exists>x \<in> set xs. q x)"
  using assms by (induction xs) auto

lemma someE_names:
  "someE (\<lambda>cat. case cat of JStr s \<Rightarrow> Inr (toLowerCase s = l) | _ \<Rightarrow> Inl TypeError) (map JStr cs)
   = Inr (\<exists>c \<in> set cs. toLowerCase c = l)"
proof -
  have "someE (\<lambda>cat. case cat of JStr s \<Rightarrow> Inr (toLowerCase s = l) | _ \<Rightarrow> Inl TypeError) (map JStr cs)
        = Inr (\<exists>x \<in> set (map JStr cs). (case x of JStr s \<Rightarrow> toLowerCase s = l | _ \<Rightarrow> False))"
    by (rule someE_total) auto
  then show ?thesis by simp
qed

lemma obj_set_twice: "obj_set k v (obj_set k w kvs) = obj_set k v kvs"
  by (induction kvs) auto

lemma canon_names [simp]: "canon_list (map JStr cs)"
  by (simp add: canon_list_iff)

lemma category_list_obj:
  assumes "category_list st cs"
  obtains kvs where "getStoredData st = JObj kvs" "canon (JObj kvs)"
    "(map_of kvs ''categories'' = None \<and> cs = [])
     \<or> map_of kvs ''categories'' = Some (JArr (map JStr cs))"
proof -
  obtain kvs where k: "getStoredData st = JObj kvs"
    using assms unfolding category_list_def by (cases "getStoredData st") auto
  have c: "canon (JObj kvs)" using canon_getStoredData [of st] k by simp
  have "(map_of kvs ''categories'' = None \<and> cs = [])
     \<or> map_of kvs ''categories'' = Some (JArr (map JStr cs))"
    using assms k unfolding category_list_def by (auto split: option.splits)
  then show ?thesis using that k c by blast
qed

lemma save_categories:
  assumes "getStoredData st = JObj kvs" and "canon (JObj kvs)"
  shows "getStoredData (saveData (JObj (obj_set ''categories'' (JArr (map JStr cs)) kvs)) st)
         = JObj (obj_set ''categories'' (JArr (map JStr cs)) kvs)"
  using assms by (intro getStoredData_saveData_canon canon_obj_set) simp_all

lemma addCategory_result:
  assumes "category_list st cs"
  shows "\<exists>kvs. getStoredData st = JObj kvs \<and> canon (JObj kvs)
     \<and> addCategory nm st
        = (if \<exists>c \<in> set cs. toLowerCase c = toLowerCase (trim nm) then Inr (None, st)
           else Inr (Some (trim nm),
                     saveData (JObj (obj_set ''categories'' (JArr (map JStr (cs @ [trim nm]))) kvs)) st))"
proof -
  obtain kvs where k: "getStoredData st = JObj kvs" and c: "canon (JObj kvs)"
    and m: "(map_of kvs ''categories'' = None \<and> cs = [])
            \<or> map_of kvs ''categories'' = Some (JArr (map JStr cs))"
    using assms by (rule category_list_obj)
  have "addCategory nm st
        = (if \<exists>c \<in> set cs. toLowerCase c = toLowerCase (trim nm) then Inr (None, st)
           else Inr (Some (trim nm),
                     saveData (JObj (obj_set ''categories'' (JArr (map JStr (cs @ [trim nm]))) kvs)) st))"
    using m
  proof
    assume a: "map_of kvs ''categories'' = None \<and> cs = []"
    then show ?thesis
      using k by (simp add: addCategory_def obj_set_twice)
  next
    assume a: "map_of kvs ''categories'' = Some (JArr (map JStr cs))"
    then show ?thesis
      using k by (simp add: addCategory_def someE_names)
  qed
  then show ?thesis using k c by blast
qed

lemma addCategory_spec:
  assumes "category_list st cs"
  shows "((\<exists>c \<in> set cs. toLowerCase c = toLowerCase (trim nm)) \<longrightarrow> addCategory nm st = Inr (None, st))
    \<and> (\<not> (\<exists>c \<in> set cs. toLowerCase c = toLowerCase (trim nm)) \<longrightarrow>
         (\<exists>st'. addCategory nm st = Inr (Some (trim nm), st')
            \<and> category_list st' (cs @ [trim nm])
            \<and> (\<forall>k. k \<noteq> ''categories'' \<longrightarrow>
                 get_prop (getStoredData st') k = get_prop (getStoredData st) k)))"
proof -
  let ?cs' = "cs @ [trim nm]"
  obtain kvs where k: "getStoredData st = JObj kvs" and c: "canon (JObj kvs)"
    and r: "addCategory nm st
        = (if \<exists>c \<in> set cs. toLowerCase c = toLowerCase (trim nm) then Inr (None, st)
           else Inr (Some (trim nm),
                     saveData (JObj (obj_set ''categories'' (JArr (map JStr ?cs')) kvs)) st))"
    using addCategory_result [OF assms, of nm] by blast
  let ?st' = "saveData (JObj (obj_set ''categories'' (JArr (map JStr ?cs')) kvs)) st"
  have g: "getStoredData ?st' = JObj (obj_set ''categories'' (JArr (map JStr ?cs')) kvs)"
    using k c by (rule save_categories)
  have cl: "category_list ?st' ?cs'"
    unfolding category_list_def g by (simp add: map_of_obj_set)
  have fr: "\<forall>k'. k' \<noteq> ''categories'' \<longrightarrow>
                 get_prop (getStoredData ?st') k' = get_prop (getStoredData st) k'"
    unfolding g k by (simp add: map_of_obj_set)
  have one: "(\<exists>c \<in> set cs. toLowerCase c = toLowerCase (trim nm)) \<longrightarrow> addCategory nm st = Inr (None, st)"
    using r by simp
  have two: "\<not> (\<exists>c \<in> set cs. toLowerCase c = toLowerCase (trim nm)) \<longrightarrow>
         (\<exists>st'. addCategory nm st = Inr (Some (trim nm), st')
            \<and> category_list st' (cs @ [trim nm])
            \<and> (\<forall>k. k \<noteq> ''categories'' \<longrightarrow>
                 get_prop (getStoredData st') k = get_prop (getStoredData st) k))"
  proof
    assume n: "\<not> (\<exists>c \<in> set cs. toLowerCase c = toLowerCase (trim nm))"
    then have "addCategory nm st = Inr (Some (trim nm), ?st')" using r by simp
    then show "\<exists>st'. addCategory nm st = Inr (Some (trim nm), st')
            \<and> category_list st' (cs @ [trim nm])
            \<and> (\<forall>k. k \<noteq> ''categories'' \<longrightarrow>
                 get_prop (getStoredData st') k = get_prop (getStoredData st) k)"
      using cl fr by (intro exI [of _ ?st'] conjI)
  qed
  show ?thesis using one two by (rule conjI)
qed

lemma category_list_empty: "category_list None []"
  by (simp add: category_list_def getStoredData_def default_data_def)

lemma trim_Food: "trim ''Food'' = ''Food''" "trim ''food'' = ''food''" "trim ''  Rent '' = ''Rent''"
  by code_simp+

lemma lower_Food: "toLowerCase ''Food'' = ''food''" "toLowerCase ''food'' = ''food''"
  "toLowerCase ''Rent'' = ''rent''"
  by code_simp+

lemma addCategory_Food:
  "addCategory ''Food'' None = Inr (Some ''Food'', store_of [] [''Food''] [])"
  by (simp add: addCategory_def getStoredData_def default_data_def trim_Food lower_Food store_of_def)

lemma addCategory_food:
  "addCategory ''food'' (store_of [] [''Food''] []) = Inr (None, store_of [] [''Food''] [])"
proof -
  have "category_list (store_of [] [''Food''] []) [''Food'']"
    by (simp add: category_list_def store_of_def)
  from addCategory_spec [OF this, of "''food''"] show ?thesis
    by (simp add: trim_Food lower_Food)
qed

text \<open>
  C4. \<open>addCategory(name)\<close> on a state with category list \<open>cs\<close>: when some stored category
  has the same lower-case form as the trimmed name, the call returns \<open>null\<close> and the
  stored state is the one before the call; when none has, the call returns the trimmed
  name (so not \<open>null\<close>), the stored category list is \<open>cs\<close> with the trimmed name appended
  at the end, and the other collections are unchanged. On the empty storage,
  \<open>addCategory("Food")\<close> stores the category and \<open>addCategory("food")\<close> after it returns
  \<open>null\<close>.
\<close>

theorem addCategory_dedup:
  assumes "category_list st cs"
  shows "((\<exists>c \<in> set cs. toLowerCase c = toLowerCase (trim nm)) \<longrightarrow> addCategory nm st = Inr (None, st))
    \<and> (\<not> (\<exists>c \<in> set cs. toLowerCase c = toLowerCase (trim nm)) \<longrightarrow>
         (\<exists>st'. addCategory nm st = Inr (Some (trim nm), st')
            \<and> category_list st' (cs @ [trim nm])
            \<and> (\<forall>k. k \<noteq> ''categories'' \<longrightarrow>
                 get_prop (getStoredData st') k = get_prop (getStoredData st) k)))
    \<and> addCategory ''Food'' None = Inr (Some ''Food'', store_of [] [''Food''] [])
    \<and> addCategory ''food'' (store_of [] [''Food''] []) = Inr (None, store_of [] [''Food''] [])"
  using addCategory_spec [OF assms, of nm] addCategory_Food addCategory_food by simp

theorem addCategory_dedup_witness:
  "category_list (store_of [] [''Food''] []) [''Food'']
   \<and> addCategory ''FOOD '' (store_of [] [''Food''] []) = Inr (None, store_of [] [''Food''] [])
   \<and> (\<exists>st'. addCategory ''  Rent '' (store_of [] [''Food''] []) = Inr (Some ''Rent'', st')
          \<and> category_list st' [''Food'', ''Rent''])"
proof -
  let ?st = "store_of [] [''Food''] []"
  have h: "category_list ?st [''Food'']"
    by (simp add: category_list_def store_of_def)
  have t: "trim ''FOOD '' = ''FOOD''" "toLowerCase ''FOOD'' = ''food''" by code_simp+
  have a: "addCategory ''FOOD '' ?st = Inr (None, ?st)"
    using addCategory_dedup [OF h, of "''FOOD ''", THEN conjunct1]
    by (simp add: t lower_Food)
  have b: "\<exists>st'. addCategory ''  Rent '' ?st = Inr (Some ''Rent'', st')
          \<and> category_list st' [''Food'', ''Rent'']"
    using addCategory_dedup [OF h, of "''  Rent ''", THEN conjunct2, THEN conjunct1]
    by (simp add: trim_Food lower_Food) blast
  show ?thesis using h a b by (intro conjI)
qed

lemma parse_fraction_float:
  "parse_fraction r0 = Some (fs, r1) \<Longrightarrow> float_fraction r0 = (fs, r1)"
  by (auto simp: parse_fraction_def float_fraction_def Let_def split: list.splits if_splits)

lemma parse_unsigned_float:
  assumes "parse_unsigned s = Some ((m, e), r)"
  shows "float_unsigned s = Some (m, e)"
proof -
  let ?is = "takeWhile is_digit s"
  let ?r = "dropWhile is_digit s"
  have i: "?is \<noteq> []" using assms by (auto simp: parse_unsigned_def Let_def split: if_splits)
  obtain fs r1 where pf: "parse_fraction ?r = Some (fs, r1)"
    using assms by (auto simp: parse_unsigned_def Let_def split: if_splits option.splits)
  obtain x r2 where pe: "parse_exponent r1 = Some (x, r2)"
    using assms pf by (auto simp: parse_unsigned_def Let_def split: if_splits option.splits)
  have me: "m = nat_of_digits (?is @ fs)" "e = x - int (length fs)"
    using assms pf pe i by (auto simp: parse_unsigned_def Let_def split: if_splits)
  have ff: "float_fraction ?r = (fs, r1)"
    using pf by (rule parse_fraction_float)
  have fe: "float_exponent r1 = x" using pe by (simp add: float_exponent_def)
  show ?thesis using i ff fe me by (simp add: float_unsigned_def Let_def)
qed

lemma parse_unsigned_digit:
  assumes "parse_unsigned s = Some (q, r)"
  shows "\<exists>c cs. s = c # cs \<and> is_digit c"
proof -
  have "takeWhile is_digit s \<noteq> []"
    using assms by (auto simp: parse_unsigned_def Let_def split: if_splits)
  then show ?thesis by (cases s) (auto split: if_splits)
qed

lemma digit_facts:
  assumes "is_digit c"
  shows "\<not> is_js_space c" "c \<noteq> CHR ''-''" "c \<noteq> CHR ''+''" "c \<noteq> CHR ''I''"
  using assms by (auto simp: is_digit_def is_js_space_def)

lemma parse_number_float:
  assumes "parse_number s = Some (x, r)"
  shows "parse_float_string s = x"
proof -
  obtain c t where s: "s = c # t" using assms by (cases s) (auto simp: parse_number_def)
  show ?thesis
  proof (cases "c = CHR ''-''")
    case True
    obtain m e where pu: "parse_unsigned t = Some ((m, e), r)" and x: "x = mk_fin (- int m) e"
      using assms s True by (auto simp: parse_number_def split: option.splits)
    obtain d ds where t: "t = d # ds" and d: "is_digit d"
      using parse_unsigned_digit [OF pu] by blast
    have fu: "float_unsigned t = Some (m, e)" using pu by (rule parse_unsigned_float)
    have sp: "\<not> is_js_space c" using True by (simp add: is_js_space_def)
    have "take 8 t \<noteq> ''Infinity''" using t digit_facts(4) [OF d] by auto
    then show ?thesis
      using s True sp fu x t digit_facts(4) [OF d] by (simp add: parse_float_string_def Let_def)
  next
    case False
    obtain m e where pu: "parse_unsigned s = Some ((m, e), r)" and x: "x = mk_fin (int m) e"
      using assms s False by (auto simp: parse_number_def split: option.splits)
    have d: "is_digit c" using parse_unsigned_digit [OF pu] s by auto
    have fu: "float_unsigned (c # t) = Some (m, e)"
      using pu s parse_unsigned_float by blast
    show ?thesis
      using s False digit_facts(1,3,4) [OF d] fu x
      by (simp add: parse_float_string_def Let_def)
  qed
qed

lemma parseFloat_num:
  assumes "is_finite x"
  shows "parseFloat (Some (JNum x)) = normalize_num x"
proof -
  have "delim []" by (simp add: delim_def)
  then have "parse_number (num_to_string x @ []) = Some (normalize_num x, [])"
    using assms by (intro parse_number_roundtrip)
  then have "parse_float_string (num_to_string x) = normalize_num x"
    using parse_number_float by simp
  then show ?thesis by (simp add: parseFloat_def)
qed

lemma canon_zero:
  assumes "canon (JNum a)" and "num_is_zero a"
  shows "a = Fin 0 0"
proof -
  obtain d where a: "a = Fin 0 d" using assms(2) by (cases a) auto
  obtain m' d' where n: "norm_fin 0 d = Fin m' d'" and nf: "d' = 0 \<or> m' mod 10 \<noteq> 0"
    using norm_fin_result by blast
  have "norm_fin 0 d = Fin 0 d" using assms(1) a by simp
  then show ?thesis using n nf a by auto
qed

lemma income_of_set:
  assumes "canon (JNum a)"
  shows "income_of (obj_set k (JNum a) inc) k' = (if k' = k then JNum a else income_of inc k')"
proof (cases "k' = k")
  case True
  have "isNaN a \<Longrightarrow> False" using assms by (cases a) auto
  then show ?thesis using True canon_zero [OF assms]
    by (auto simp: income_of_def map_of_obj_set)
next
  case False
  then show ?thesis by (simp add: income_of_def map_of_obj_set)
qed

lemma income_table_obj:
  assumes "income_table st inc"
  obtains kvs where "getStoredData st = JObj kvs" "canon (JObj kvs)"
    "(map_of kvs ''income'' = None \<and> inc = []) \<or> map_of kvs ''income'' = Some (JObj inc)"
    "canon (JObj inc)"
proof -
  obtain kvs where k: "getStoredData st = JObj kvs"
    using assms unfolding income_table_def by (cases "getStoredData st") auto
  have c: "canon (JObj kvs)" using canon_getStoredData [of st] k by simp
  have m: "(map_of kvs ''income'' = None \<and> inc = []) \<or> map_of kvs ''income'' = Some (JObj inc)"
    using assms k unfolding income_table_def by (auto split: option.splits)
  have "canon (JObj inc)"
  proof (cases "map_of kvs ''income''")
    case None
    then show ?thesis using m by simp
  next
    case (Some v)
    have "canon_members kvs" using c by simp
    then have "canon v" using Some by (rule canon_map_of)
    then show ?thesis using m Some by simp
  qed
  then show ?thesis using that k c m by blast
qed

lemma key_or_current_Some [simp]: "k \<noteq> [] \<Longrightarrow> key_or_current P now (Some k) = k"
  by (simp add: key_or_current_def)

lemma getIncome_table:
  assumes "income_table st inc" and "k \<noteq> []"
  shows "getIncome P now (Some k) st = Inr (income_of inc k)"
proof -
  obtain kvs where k: "getStoredData st = JObj kvs"
    and m: "(map_of kvs ''income'' = None \<and> inc = []) \<or> map_of kvs ''income'' = Some (JObj inc)"
    using assms(1) by (rule income_table_obj)
  from m show ?thesis
  proof
    assume "map_of kvs ''income'' = None \<and> inc = []"
    then show ?thesis using k by (simp add: getIncome_def income_of_def)
  next
    assume "map_of kvs ''income'' = Some (JObj inc)"
    then show ?thesis using k assms(2)
      by (simp add: getIncome_def income_of_def split: option.splits)
  qed
qed

lemma setIncome_result:
  assumes "income_table st inc" and "canon (JNum a)" and "k \<noteq> []"
  shows "\<exists>st'. setIncome P now (JNum a) (Some k) st = Inr (a, st')
           \<and> income_table st' (obj_set k (JNum a) inc)
           \<and> (\<forall>p. p \<noteq> ''income'' \<longrightarrow> get_prop (getStoredData st') p = get_prop (getStoredData st) p)"
proof -
  obtain kvs where k: "getStoredData st = JObj kvs" and c: "canon (JObj kvs)"
    and m: "(map_of kvs ''income'' = None \<and> inc = []) \<or> map_of kvs ''income'' = Some (JObj inc)"
    and ci: "canon (JObj inc)"
    using assms(1) by (rule income_table_obj)
  have fin: "is_finite a" and na: "normalize_num a = a" using assms(2) by simp_all
  have pf: "parseFloat (Some (JNum a)) = a" using parseFloat_num [OF fin] na by simp
  let ?inc' = "obj_set k (JNum a) inc"
  let ?d = "JObj (obj_set ''income'' (JObj ?inc') kvs)"
  let ?st' = "saveData ?d st"
  have s: "setIncome P now (JNum a) (Some k) st = Inr (a, ?st')"
    using m
  proof
    assume "map_of kvs ''income'' = None \<and> inc = []"
    then show ?thesis using k assms(3) pf
      by (simp add: setIncome_def obj_set_twice)
  next
    assume "map_of kvs ''income'' = Some (JObj inc)"
    then show ?thesis using k assms(3) pf
      by (simp add: setIncome_def)
  qed
  have ci': "canon (JObj ?inc')" using ci assms(2) by (rule canon_obj_set)
  have "canon ?d" using c ci' by (rule canon_obj_set)
  then have g: "getStoredData ?st' = ?d"
    by (rule getStoredData_saveData_canon)
  have t: "income_table ?st' ?inc'"
    unfolding income_table_def g by (simp add: map_of_obj_set)
  have fr: "\<forall>p. p \<noteq> ''income'' \<longrightarrow> get_prop (getStoredData ?st') p = get_prop (getStoredData st) p"
    unfolding g k by (simp add: map_of_obj_set)
  show ?thesis using s t fr by (intro exI [of _ ?st'] conjI)
qed

lemma income_spec:
  assumes "income_table st inc" and "canon (JNum a)" and "k \<noteq> []" and "k' \<noteq> []" and "k \<noteq> k'"
  shows "\<exists>st'. setIncome P now (JNum a) (Some k) st = Inr (a, st')
      \<and> getIncome P now' (Some k) st' = Inr (JNum a)
      \<and> getIncome P now' (Some k') st' = getIncome P now' (Some k') st
      \<and> (map_of inc k' = None \<longrightarrow> getIncome P now' (Some k') st' = Inr (JNum (Fin 0 0)))
      \<and> (\<forall>p. p \<noteq> ''income'' \<longrightarrow> get_prop (getStoredData st') p = get_prop (getStoredData st) p)"
proof -
  obtain st' where s: "setIncome P now (JNum a) (Some k) st = Inr (a, st')"
    and t: "income_table st' (obj_set k (JNum a) inc)"
    and fr: "\<forall>p. p \<noteq> ''income'' \<longrightarrow> get_prop (getStoredData st') p = get_prop (getStoredData st) p"
    using setIncome_result [OF assms(1,2,3)] by blast
  have g1: "getIncome P now' (Some k) st' = Inr (JNum a)"
    using getIncome_table [OF t assms(3)] income_of_set [OF assms(2)] by simp
  have g2: "getIncome P now' (Some k') st' = Inr (income_of inc k')"
    using getIncome_table [OF t assms(4)] income_of_set [OF assms(2)] assms(5) by simp
  have g3: "getIncome P now' (Some k') st = Inr (income_of inc k')"
    using assms(1,4) by (rule getIncome_table)
  have g4: "map_of inc k' = None \<longrightarrow> getIncome P now' (Some k') st' = Inr (JNum (Fin 0 0))"
    using g2 by (simp add: income_of_def)
  show ?thesis using s g1 g2 g3 g4 fr by (intro exI [of _ st'] conjI) simp_all
qed

lemma income_table_empty: "income_table None []"
  by (simp add: income_table_def getStoredData_def default_data_def)

lemma setIncome_sample:
  "setIncome P now (JNum (Fin 1000 0)) (Some ''2024-03'') None
   = Inr (Fin 1000 0, store_of [] [] [(''2024-03'', JNum (Fin 1000 0))])"
proof -
  have "parseFloat (Some (JNum (Fin 1000 0))) = Fin 1000 0"
    using parseFloat_num [of "Fin 1000 0"] by simp
  then show ?thesis
    by (simp add: setIncome_def getStoredData_def default_data_def store_of_def Let_def)
qed

lemma getIncome_sample:
  "getIncome P now (Some ''2024-03'') (store_of [] [] [(''2024-03'', JNum (Fin 1000 0))])
   = Inr (JNum (Fin 1000 0))"
  "getIncome P now (Some ''2024-04'') (store_of [] [] [(''2024-03'', JNum (Fin 1000 0))])
   = Inr (JNum (Fin 0 0))"
proof -
  have t: "income_table (store_of [] [] [(''2024-03'', JNum (Fin 1000 0))]) [(''2024-03'', JNum (Fin 1000 0))]"
    by (simp add: income_table_def store_of_def)
  show "getIncome P now (Some ''2024-03'') (store_of [] [] [(''2024-03'', JNum (Fin 1000 0))])
   = Inr (JNum (Fin 1000 0))"
    using getIncome_table [OF t, of "''2024-03''"] by (simp add: income_of_def)
  show "getIncome P now (Some ''2024-04'') (store_of [] [] [(''2024-03'', JNum (Fin 1000 0))])
   = Inr (JNum (Fin 0 0))"
    using getIncome_table [OF t, of "''2024-04''"] by (simp add: income_of_def)
qed

text \<open>
  C5. On a state with income table \<open>inc\<close>, for month keys \<open>k\<close> and \<open>k'\<close> that differ and an
  amount \<open>a\<close> that is a finite number: \<open>setIncome(a, k)\<close> returns \<open>a\<close>; after it
  \<open>getIncome(k)\<close> returns \<open>a\<close> and \<open>getIncome(k')\<close> returns what it returned before the
  call, which is 0 when the table has no entry for \<open>k'\<close>; the other collections are
  unchanged. On the empty storage, \<open>setIncome(1000, "2024-03")\<close> makes
  \<open>getIncome("2024-03")\<close> return 1000 and \<open>getIncome("2024-04")\<close> return 0. (The value
  read for a name is the property of the table itself: a month key is never the name of
  a property that every object inherits.)
\<close>

theorem income_isolated:
  assumes "income_table st inc" and "canon (JNum a)" and "k \<noteq> []" and "k' \<noteq> []" and "k \<noteq> k'"
  shows "(\<exists>st'. setIncome P now (JNum a) (Some k) st = Inr (a, st')
      \<and> getIncome P now' (Some k) st' = Inr (JNum a)
      \<and> getIncome P now' (Some k') st' = getIncome P now' (Some k') st
      \<and> (map_of inc k' = None \<longrightarrow> getIncome P now' (Some k') st' = Inr (JNum (Fin 0 0)))
      \<and> (\<forall>p. p \<noteq> ''income'' \<longrightarrow> get_prop (getStoredData st') p = get_prop (getStoredData st) p))
    \<and> setIncome P now (JNum (Fin 1000 0)) (Some ''2024-03'') None
        = Inr (Fin 1000 0, store_of [] [] [(''2024-03'', JNum (Fin 1000 0))])
    \<and> getIncome P now' (Some ''2024-03'') (store_of [] [] [(''2024-03'', JNum (Fin 1000 0))])
        = Inr (JNum (Fin 1000 0))
    \<and> getIncome P now' (Some ''2024-04'') (store_of [] [] [(''2024-03'', JNum (Fin 1000 0))])
        = Inr (JNum (Fin 0 0))"
  using income_spec [OF assms, of P now now'] setIncome_sample [of P now] getIncome_sample [of P now']
  by (intro conjI)

text \<open>
  A state with 1000 for March 2024 and 800 for April: setting March to 1250.5 is read
  back, April still reads 800 and May, never set, reads 0.
\<close>

theorem income_isolated_witness:
  "income_table (store_of [] [] [(''2024-03'', JNum (Fin 1000 0)), (''2024-04'', JNum (Fin 800 0))])
     [(''2024-03'', JNum (Fin 1000 0)), (''2024-04'', JNum (Fin 800 0))]
   \<and> canon (JNum (Fin 12505 1))
   \<and> (\<exists>st'. setIncome utc_platform 0 (JNum (Fin 12505 1)) (Some ''2024-03'')
            (store_of [] [] [(''2024-03'', JNum (Fin 1000 0)), (''2024-04'', JNum (Fin 800 0))])
          = Inr (Fin 12505 1, st')
        \<and> getIncome utc_platform 0 (Some ''2024-03'') st' = Inr (JNum (Fin 12505 1))
        \<and> getIncome utc_platform 0 (Some ''2024-04'') st' = Inr (JNum (Fin 800 0)))
   \<and> (\<exists>st'. setIncome utc_platform 0 (JNum (Fin 12505 1)) (Some ''2024-03'')
            (store_of [] [] [(''2024-03'', JNum (Fin 1000 0)), (''2024-04'', JNum (Fin 800 0))])
          = Inr (Fin 12505 1, st')
        \<and> getIncome utc_platform 0 (Some ''2024-05'') st' = Inr (JNum (Fin 0 0)))"
proof -
  let ?inc = "[(''2024-03'', JNum (Fin 1000 0)), (''2024-04'', JNum (Fin 800 0))]"
  let ?st = "store_of [] [] ?inc"
  have h: "income_table ?st ?inc"
    by (simp add: income_table_def store_of_def)
  have c: "canon (JNum (Fin 12505 1))" by simp
  have old: "getIncome utc_platform 0 (Some ''2024-04'') ?st = Inr (JNum (Fin 800 0))"
    using getIncome_table [OF h, of "''2024-04''"] by (simp add: income_of_def)
  obtain st1 where s1: "setIncome utc_platform 0 (JNum (Fin 12505 1)) (Some ''2024-03'') ?st
                        = Inr (Fin 12505 1, st1)"
    and g1: "getIncome utc_platform 0 (Some ''2024-03'') st1 = Inr (JNum (Fin 12505 1))"
    and g2: "getIncome utc_platform 0 (Some ''2024-04'') st1
             = getIncome utc_platform 0 (Some ''2024-04'') ?st"
    using income_isolated [OF h c, of "''2024-03''" "''2024-04''" utc_platform 0 0, THEN conjunct1]
    by auto
  obtain st2 where s2: "setIncome utc_platform 0 (JNum (Fin 12505 1)) (Some ''2024-03'') ?st
                        = Inr (Fin 12505 1, st2)"
    and g3: "map_of ?inc ''2024-05'' = None \<longrightarrow>
             getIncome utc_platform 0 (Some ''2024-05'') st2 = Inr (JNum (Fin 0 0))"
    using income_isolated [OF h c, of "''2024-03''" "''2024-05''" utc_platform 0 0, THEN conjunct1]
    by auto
  have g3': "getIncome utc_platform 0 (Some ''2024-05'') st2 = Inr (JNum (Fin 0 0))"
    using g3 by simp
  have g2': "getIncome utc_platform 0 (Some ''2024-04'') st1 = Inr (JNum (Fin 800 0))"
    using g2 old by simp
  have a: "\<exists>st'. setIncome utc_platform 0 (JNum (Fin 12505 1)) (Some ''2024-03'') ?st
          = Inr (Fin 12505 1, st')
        \<and> getIncome utc_platform 0 (Some ''2024-03'') st' = Inr (JNum (Fin 12505 1))
        \<and> getIncome utc_platform 0 (Some ''2024-04'') st' = Inr (JNum (Fin 800 0))"
    using s1 g1 g2' by (intro exI [of _ st1] conjI)
  have b: "\<exists>st'. setIncome utc_platform 0 (JNum (Fin 12505 1)) (Some ''2024-03'') ?st
          = Inr (Fin 12505 1, st')
        \<and> getIncome utc_platform 0 (Some ''2024-05'') st' = Inr (JNum (Fin 0 0))"
    using s2 g3' by (intro exI [of _ st2] conjI)
  show ?thesis using h c a b by (intro conjI)
qed









lemma month_of_expense [simp]:
  "month_of P (expense i d c a) = getMonthKey P (Date_parse P d)"
  by (simp add: month_of_def)

lemma amount_of_expense [simp]: "amount_of (expense i d c a) = Fin a 0"
proof -
  have "parseFloat (Some (JNum (Fin a 0))) = Fin a 0"
    using parseFloat_num [of "Fin a 0"] by simp
  then show ?thesis by (simp add: amount_of_def expense_def field_def)
qed

lemma field_expense [simp]:
  "field (expense i d c a) ''category'' = Some (JStr c)"
  "field (expense i d c a) ''date'' = Some (JStr d)"
  "field (expense i d c a) ''id'' = Some (JStr i)"
  by (simp_all add: expense_def field_def)




end
